theory Spec2Isabelle
  imports Complex_Main "HOL-Library.Log_Nat"
begin

section \<open>Time values\<close>

text \<open>
  Every \<^verbatim>\<open>datetime\<close> the program keeps carries the one \<^verbatim>\<open>tzinfo\<close> object
  \<^verbatim>\<open>SEOUL\<close>, and Python subtracts, compares and shifts two such values on their
  local (wall clock) fields alone. A \<^verbatim>\<open>datetime\<close> is therefore the number of
  microseconds of its wall clock fields since 0001-01-01T00:00:00, and a
  \<^verbatim>\<open>timedelta\<close> a signed number of microseconds. Python keeps both in a bounded
  range and raises \<^verbatim>\<open>OverflowError\<close> outside of it.
\<close>

type_synonym datetime = int
type_synonym timedelta = int

datatype error = OverflowError | ValueError | TypeError | KeyError | StoreError string

definition US_PER_SECOND :: int where
  "US_PER_SECOND = 1000000"

definition US_PER_DAY :: int where
  "US_PER_DAY = 86400 * 1000000"

text \<open>\<^verbatim>\<open>date.max.toordinal()\<close>: the days from 0001-01-01 to 9999-12-31.\<close>

definition MAX_ORDINAL :: int where
  "MAX_ORDINAL = 3652059"

definition MAX_DELTA_DAYS :: int where
  "MAX_DELTA_DAYS = 999999999"

definition valid_datetime :: "datetime \<Rightarrow> bool" where
  "valid_datetime t \<longleftrightarrow> 0 \<le> t \<and> t < MAX_ORDINAL * US_PER_DAY"

definition valid_timedelta :: "timedelta \<Rightarrow> bool" where
  "valid_timedelta d \<longleftrightarrow>
     - MAX_DELTA_DAYS \<le> d div US_PER_DAY \<and> d div US_PER_DAY \<le> MAX_DELTA_DAYS"

definition ebind :: "error + 'a \<Rightarrow> ('a \<Rightarrow> error + 'b) \<Rightarrow> error + 'b" where
  "ebind r f = (case r of Inl e \<Rightarrow> Inl e | Inr v \<Rightarrow> f v)"

text \<open>The normalising constructor behind every \<^verbatim>\<open>timedelta\<close> result.\<close>

definition mk_timedelta :: "int \<Rightarrow> error + timedelta" where
  "mk_timedelta us = (if valid_timedelta us then Inr us else Inl OverflowError)"

text \<open>\<^verbatim>\<open>timedelta(seconds=n)\<close>, \<^verbatim>\<open>timedelta(days=n)\<close> and the like, for an integer.\<close>

definition seconds :: "int \<Rightarrow> timedelta" where
  "seconds n = n * US_PER_SECOND"

definition minutes :: "int \<Rightarrow> timedelta" where
  "minutes n = n * 60 * US_PER_SECOND"

definition hours :: "int \<Rightarrow> timedelta" where
  "hours n = n * 3600 * US_PER_SECOND"

definition days :: "int \<Rightarrow> timedelta" where
  "days n = n * US_PER_DAY"

text \<open>\<^verbatim>\<open>dt + td\<close> and \<^verbatim>\<open>dt - td\<close>.\<close>

definition dt_add :: "datetime \<Rightarrow> timedelta \<Rightarrow> error + datetime" where
  "dt_add t d = (if valid_datetime (t + d) then Inr (t + d) else Inl OverflowError)"

definition dt_sub :: "datetime \<Rightarrow> timedelta \<Rightarrow> error + datetime" where
  "dt_sub t d = dt_add t (- d)"

text \<open>\<^verbatim>\<open>a - b\<close> for two datetimes of the same \<^verbatim>\<open>tzinfo\<close>: never out of range.\<close>

definition dt_diff :: "datetime \<Rightarrow> datetime \<Rightarrow> timedelta" where
  "dt_diff a b = a - b"

text \<open>\<^verbatim>\<open>td * k\<close> for an integer \<^verbatim>\<open>k\<close>, and \<^verbatim>\<open>td1 + td2\<close>: exact, range checked.\<close>

definition td_mul :: "timedelta \<Rightarrow> int \<Rightarrow> error + timedelta" where
  "td_mul d k = mk_timedelta (d * k)"

definition td_add :: "timedelta \<Rightarrow> timedelta \<Rightarrow> error + timedelta" where
  "td_add a b = mk_timedelta (a + b)"

text \<open>
  \<^verbatim>\<open>dt.replace(hour=h, minute=m, second=s, microsecond=0)\<close> keeps the date;
  \<^verbatim>\<open>dt.replace(microsecond=0)\<close> keeps everything down to the second.
\<close>

definition replace_hms :: "datetime \<Rightarrow> int \<Rightarrow> int \<Rightarrow> int \<Rightarrow> datetime" where
  "replace_hms t h m s = (t div US_PER_DAY) * US_PER_DAY + ((h * 60 + m) * 60 + s) * US_PER_SECOND"

definition replace_microsecond0 :: "datetime \<Rightarrow> datetime" where
  "replace_microsecond0 t = t - t mod US_PER_SECOND"

definition date_of :: "datetime \<Rightarrow> int" where
  "date_of t = t div US_PER_DAY"

definition time_of_day :: "datetime \<Rightarrow> int" where
  "time_of_day t = t mod US_PER_DAY"

text \<open>
  The constructor \<^verbatim>\<open>datetime(year, month, day, hour, minute, second, microsecond)\<close>
  for fields in their ranges, with the day count of the proleptic Gregorian calendar.
\<close>

definition is_leap :: "int \<Rightarrow> bool" where
  "is_leap y \<longleftrightarrow> y mod 4 = 0 \<and> (0 < y mod 100 \<or> y mod 400 = 0)"

definition days_before_year :: "int \<Rightarrow> int" where
  "days_before_year y = (y - 1) * 365 + (y - 1) div 4 - (y - 1) div 100 + (y - 1) div 400"

definition days_in_month :: "int \<Rightarrow> int list" where
  "days_in_month y = [31, if is_leap y then 29 else 28, 31, 30, 31, 30, 31, 31, 30, 31, 30, 31]"

definition days_before_month :: "int \<Rightarrow> int \<Rightarrow> int" where
  "days_before_month y m = sum_list (take (nat (m - 1)) (days_in_month y))"

definition datetime_of :: "int \<Rightarrow> int \<Rightarrow> int \<Rightarrow> int \<Rightarrow> int \<Rightarrow> int \<Rightarrow> int \<Rightarrow> datetime" where
  "datetime_of y mo d h mi s us =
     days (days_before_year y + days_before_month y mo + d - 1) + hours h + minutes mi + seconds s + us"

section \<open>Binary floating point\<close>

text \<open>
  \<^verbatim>\<open>timedelta.total_seconds()\<close> is a Python \<^verbatim>\<open>float\<close>, an IEEE 754 double. A finite
  double is a rational number with a significand of 53 bits; every operation returns
  the exact result rounded to the nearest such number, ties to the even significand.
  The exponent range is left open here: the quantities below never reach the
  subnormal range, and a product beyond the largest double is infinite in Python and
  refused by \<^verbatim>\<open>timedelta\<close> with the same \<^verbatim>\<open>OverflowError\<close> that the range check of
  \<open>mk_timedelta\<close> gives to the finite value of this model.
\<close>

definition pow2 :: "int \<Rightarrow> rat" where
  "pow2 e = 2 powi e"

text \<open>The binary exponent of a positive rational: \<open>pow2 (ilog2 q) \<le> q < pow2 (ilog2 q + 1)\<close>.\<close>

definition ilog2 :: "rat \<Rightarrow> int" where
  "ilog2 q = (case quotient_of q of (a, b) \<Rightarrow>
     (let d = bitlen a - bitlen b in if pow2 d \<le> q then d else d - 1))"

text \<open>Round to the nearest integer, a tie to the even one.\<close>

definition rne :: "rat \<Rightarrow> int" where
  "rne q = (let f = \<lfloor>q\<rfloor>; r = q - of_int f in
     if r < 1 / 2 then f else if 1 / 2 < r then f + 1 else if even f then f else f + 1)"

definition fl :: "rat \<Rightarrow> rat" where
  "fl q = (if q = 0 then 0 else
     (let e = ilog2 \<bar>q\<bar> - 52 in of_int (rne (q / pow2 e)) * pow2 e))"

text \<open>\<^verbatim>\<open>float(k)\<close> for an integer: rounded, and an error beyond the largest double.\<close>

definition float_of_int :: "int \<Rightarrow> error + rat" where
  "float_of_int k = (if pow2 1024 \<le> \<bar>fl (of_int k)\<bar> then Inl OverflowError else Inr (fl (of_int k)))"

definition fmul :: "rat \<Rightarrow> rat \<Rightarrow> rat" where
  "fmul a b = fl (a * b)"

text \<open>\<^verbatim>\<open>math.modf\<close>: the integral part (towards zero) and the fraction, both exact.\<close>

definition trunc :: "rat \<Rightarrow> int" where
  "trunc x = (if 0 \<le> x then \<lfloor>x\<rfloor> else - \<lfloor>- x\<rfloor>)"

definition frac_part :: "rat \<Rightarrow> rat" where
  "frac_part x = x - of_int (trunc x)"

text \<open>
  \<^verbatim>\<open>td.total_seconds()\<close>: the true quotient of two integers, correctly rounded.
\<close>

definition total_seconds :: "timedelta \<Rightarrow> rat" where
  "total_seconds d = fl (of_int d / of_int US_PER_SECOND)"

text \<open>
  \<^verbatim>\<open>timedelta(seconds=x)\<close> for a float \<^verbatim>\<open>x\<close>: the whole seconds are converted exactly,
  the fraction is multiplied by \<^verbatim>\<open>1e6\<close> in floating point and the product rounded to
  the nearest microsecond, a tie to the even one.
\<close>

definition microseconds_of_float_seconds :: "rat \<Rightarrow> int" where
  "microseconds_of_float_seconds x =
     trunc x * US_PER_SECOND + rne (fmul (of_int US_PER_SECOND) (frac_part x))"

definition timedelta_of_float_seconds :: "rat \<Rightarrow> error + timedelta" where
  "timedelta_of_float_seconds x = mk_timedelta (microseconds_of_float_seconds x)"

section \<open>Session state and the time mapper\<close>

definition DEFAULT_SPEED :: int where
  "DEFAULT_SPEED = 3"

record session_state =
  real_base :: datetime
  virt_base :: datetime
  real_base_init :: datetime
  virt_base_init :: datetime
  virt_adjust :: timedelta
  speed :: int
  last_loaded_at :: "string option"
  last_saved_at :: "string option"
  warnings :: "string list"

text \<open>\<^verbatim>\<open>REAL_BASE_HMS\<close> and \<^verbatim>\<open>VIRT_BASE_HMS\<close>, as (h, m, s).\<close>

definition REAL_BASE_HMS :: "int \<times> int \<times> int" where
  "REAL_BASE_HMS = (20, 0, 0)"

definition VIRT_BASE_HMS :: "int \<times> int \<times> int" where
  "VIRT_BASE_HMS = (9, 0, 0)"

definition get_default_real_base :: "datetime \<Rightarrow> error + datetime" where
  "get_default_real_base now =
     (case REAL_BASE_HMS of (h, m, s) \<Rightarrow>
        (let base = replace_hms now h m s in
         if now < base then dt_sub base (days 1) else Inr base))"

definition get_default_virt_base :: "datetime \<Rightarrow> datetime" where
  "get_default_virt_base rb = (case VIRT_BASE_HMS of (h, m, s) \<Rightarrow> replace_hms rb h m s)"

definition compute_virtual :: "session_state \<Rightarrow> datetime \<Rightarrow> error + datetime" where
  "compute_virtual st now =
     (let rb = real_base st; vb = virt_base st; sp = speed st; adj = virt_adjust st;
          elapsed = dt_diff now rb in
      ebind (float_of_int sp) (\<lambda>fsp.
      ebind (timedelta_of_float_seconds (fmul (total_seconds elapsed) fsp)) (\<lambda>scaled.
      ebind (dt_add vb scaled) (\<lambda>v1.
      ebind (dt_add v1 adj) (\<lambda>vn.
      Inr (replace_microsecond0 vn))))))"

text \<open>The four fields of the configuration, in a session that has just started.\<close>

definition configuration :: "datetime \<Rightarrow> datetime \<Rightarrow> int \<Rightarrow> timedelta \<Rightarrow> session_state" where
  "configuration rb vb sp adj =
     \<lparr>real_base = rb, virt_base = vb, real_base_init = rb, virt_base_init = vb,
      virt_adjust = adj, speed = sp, last_loaded_at = None, last_saved_at = None, warnings = []\<rparr>"

text \<open>
  The formula of the specification, in exact integer arithmetic, and its truncation
  to whole seconds: what \<open>compute_virtual\<close> is compared with.
\<close>

definition virtual_now_spec :: "session_state \<Rightarrow> datetime \<Rightarrow> int" where
  "virtual_now_spec st real_now =
     virt_base st + (real_now - real_base st) * speed st + virt_adjust st"

definition truncate_to_seconds :: "int \<Rightarrow> int" where
  "truncate_to_seconds t = t - t mod US_PER_SECOND"

section \<open>The shared record\<close>

text \<open>
  The time zone \<^verbatim>\<open>SEOUL = ZoneInfo("Asia/Seoul")\<close> comes from the time zone database
  of the host, which is not part of the program: it is a parameter, given by the two
  functions Python calls on it, the offset from UTC at a local time and the local time
  of an instant given in UTC. The two readings of a local hour that a zone repeats
  (\<^verbatim>\<open>fold\<close>) are not told apart.
\<close>

record zone =
  utcoffset :: "datetime \<Rightarrow> timedelta"
  fromutc :: "datetime \<Rightarrow> datetime"

text \<open>The rule of Asia/Seoul in force since 1988: nine hours ahead of UTC all year.\<close>

definition KST :: zone where
  "KST = \<lparr>utcoffset = (\<lambda>t. hours 9), fromutc = (\<lambda>u. u + hours 9)\<rparr>"

text \<open>
  The text of an ISO column stands for what \<^verbatim>\<open>datetime.fromisoformat\<close> makes of it:
  the empty string, a string it rejects, or the local fields it reads together with
  the UTC offset when the string carries one; \<^verbatim>\<open>isoformat()\<close> writes the latter form.
\<close>

datatype iso_text = EmptyText | Junk | Iso datetime "timedelta option"

text \<open>
  A key of the row \<^verbatim>\<open>dict\<close>: absent, present with \<^verbatim>\<open>None\<close>, or present with a value of
  the type its column has in the table definition at the end of the script.
\<close>

datatype 'a cell = Absent | Null | Val 'a

record row =
  row_id :: "int cell"
  real_base_iso :: "iso_text cell"
  virt_base_iso :: "iso_text cell"
  virt_adjust_sec :: "int cell"
  row_speed :: "int cell"
  updated_at :: "string cell"

text \<open>
  \<^verbatim>\<open>row.get(key)\<close>, \<^verbatim>\<open>row.get(key, default)\<close>, and \<^verbatim>\<open>row[key]\<close> where a string is
  expected (a missing key raises, and \<^verbatim>\<open>fromisoformat\<close> refuses \<^verbatim>\<open>None\<close>); then the
  truth value of the \<^verbatim>\<open>dict\<close> and of a text or \<^verbatim>\<open>None\<close>.
\<close>

definition get :: "'a cell \<Rightarrow> 'a option" where
  "get c = (case c of Absent \<Rightarrow> None | Null \<Rightarrow> None | Val v \<Rightarrow> Some v)"

definition get_default :: "'a cell \<Rightarrow> 'a \<Rightarrow> 'a option" where
  "get_default c d = (case c of Absent \<Rightarrow> Some d | Null \<Rightarrow> None | Val v \<Rightarrow> Some v)"

definition getitem :: "'a cell \<Rightarrow> error + 'a" where
  "getitem c = (case c of Absent \<Rightarrow> Inl KeyError | Null \<Rightarrow> Inl TypeError | Val v \<Rightarrow> Inr v)"

definition row_truthy :: "row \<Rightarrow> bool" where
  "row_truthy r \<longleftrightarrow> \<not> (row_id r = Absent \<and> real_base_iso r = Absent \<and> virt_base_iso r = Absent
     \<and> virt_adjust_sec r = Absent \<and> row_speed r = Absent \<and> updated_at r = Absent)"

definition text_truthy :: "iso_text option \<Rightarrow> bool" where
  "text_truthy t \<longleftrightarrow> (case t of None \<Rightarrow> False | Some EmptyText \<Rightarrow> False | Some _ \<Rightarrow> True)"

text \<open>\<^verbatim>\<open>int(x)\<close> for \<^verbatim>\<open>None\<close> or an integer.\<close>

definition py_int :: "int option \<Rightarrow> error + int" where
  "py_int x = (case x of None \<Rightarrow> Inl TypeError | Some n \<Rightarrow> Inr n)"

text \<open>
  \<^verbatim>\<open>dt.astimezone(SEOUL)\<close> for a datetime with a fixed UTC offset: through UTC.
\<close>

definition astimezone :: "zone \<Rightarrow> datetime \<Rightarrow> timedelta \<Rightarrow> error + datetime" where
  "astimezone SEOUL w off =
     ebind (dt_sub w off) (\<lambda>utc.
       (let local = fromutc SEOUL utc in
        if valid_datetime local then Inr local else Inl OverflowError))"

text \<open>A datetime of the session is in \<^verbatim>\<open>SEOUL\<close> already, so \<^verbatim>\<open>astimezone\<close> returns it.\<close>

definition to_iso :: "zone \<Rightarrow> datetime \<Rightarrow> iso_text" where
  "to_iso SEOUL dt = Iso dt (Some (utcoffset SEOUL dt))"

definition from_iso :: "zone \<Rightarrow> iso_text \<Rightarrow> error + datetime" where
  "from_iso SEOUL s =
     (case s of
        EmptyText \<Rightarrow> Inl ValueError
      | Junk \<Rightarrow> Inl ValueError
      | Iso w tz \<Rightarrow>
          (if \<not> valid_datetime w then Inl ValueError
           else (case tz of None \<Rightarrow> Inr w | Some off \<Rightarrow> astimezone SEOUL w off)))"

text \<open>
  The client: the rows the query for \<^verbatim>\<open>ROW_ID\<close> returns (\<^verbatim>\<open>resp.data\<close>), and whether a
  read or a write raises.
\<close>

record store =
  data :: "row list option"
  select_raises :: "string option"
  upsert_raises :: "string option"

definition ROW_ID :: int where
  "ROW_ID = 1"

definition execute_select :: "store \<Rightarrow> error + row list option" where
  "execute_select db = (case select_raises db of Some msg \<Rightarrow> Inl (StoreError msg) | None \<Rightarrow> Inr (data db))"

definition execute_upsert :: "store \<Rightarrow> row \<Rightarrow> error + store" where
  "execute_upsert db payload =
     (case upsert_raises db of Some msg \<Rightarrow> Inl (StoreError msg)
      | None \<Rightarrow> Inr (db\<lparr>data := Some [payload]\<rparr>))"

text \<open>\<^verbatim>\<open>try: ... except Exception: ...\<close>\<close>

definition try_except :: "error + 'a \<Rightarrow> (error \<Rightarrow> error + 'a) \<Rightarrow> error + 'a" where
  "try_except body handler = (case body of Inl e \<Rightarrow> handler e | Inr v \<Rightarrow> Inr v)"

definition load_remote_state :: "store option \<Rightarrow> error + row option" where
  "load_remote_state supabase =
     (case supabase of
        None \<Rightarrow> Inr None
      | Some db \<Rightarrow>
          try_except
            (ebind (execute_select db) (\<lambda>resp.
               (let rows = (case resp of None \<Rightarrow> [] | Some rs \<Rightarrow> rs) in
                Inr (case rows of [] \<Rightarrow> None | r # _ \<Rightarrow> Some r))))
            (\<lambda>e. Inr None))"

text \<open>
  \<open>now_iso\<close> is \<^verbatim>\<open>datetime.now(SEOUL).isoformat()\<close>. Of the warning shown when the write
  fails, the state keeps \<^verbatim>\<open>str(e)\<close>.
\<close>

definition make_payload :: "zone \<Rightarrow> string \<Rightarrow> session_state \<Rightarrow> row" where
  "make_payload SEOUL now_iso st =
     \<lparr>row_id = Val ROW_ID,
      real_base_iso = Val (to_iso SEOUL (real_base st)),
      virt_base_iso = Val (to_iso SEOUL (virt_base st)),
      virt_adjust_sec = Val (trunc (total_seconds (virt_adjust st))),
      row_speed = Val (speed st),
      updated_at = Val now_iso\<rparr>"

definition str_of_error :: "error \<Rightarrow> string" where
  "str_of_error e = (case e of StoreError msg \<Rightarrow> msg | _ \<Rightarrow> [])"

definition save_remote_state ::
  "zone \<Rightarrow> string \<Rightarrow> store option \<Rightarrow> session_state \<Rightarrow> error + session_state \<times> store option" where
  "save_remote_state SEOUL now_iso supabase st =
     (case supabase of
        None \<Rightarrow> Inr (st, None)
      | Some db \<Rightarrow>
          (let payload = make_payload SEOUL now_iso st in
           try_except
             (ebind (execute_upsert db payload) (\<lambda>db'.
                Inr (st\<lparr>last_saved_at := get (updated_at payload)\<rparr>, Some db')))
             (\<lambda>e. Inr (st\<lparr>warnings := warnings st @ [str_of_error e]\<rparr>, Some db))))"

text \<open>
  The body of \<open>apply_remote_state\<close> is five statements under one \<^verbatim>\<open>try\<close> whose
  handler is \<^verbatim>\<open>pass\<close>: they run in order, and the first that raises ends the call with
  the assignments made so far.
\<close>

fun run_statements ::
  "(session_state \<Rightarrow> error + session_state) list \<Rightarrow> session_state \<Rightarrow> session_state" where
  "run_statements [] st = st"
| "run_statements (f # fs) st = (case f st of Inl e \<Rightarrow> st | Inr st' \<Rightarrow> run_statements fs st')"

definition assign_real_base :: "zone \<Rightarrow> row \<Rightarrow> session_state \<Rightarrow> error + session_state" where
  "assign_real_base SEOUL r st =
     (if text_truthy (get (real_base_iso r))
      then ebind (getitem (real_base_iso r)) (\<lambda>s.
           ebind (from_iso SEOUL s) (\<lambda>d. Inr (st\<lparr>real_base := d\<rparr>)))
      else Inr st)"

definition assign_virt_base :: "zone \<Rightarrow> row \<Rightarrow> session_state \<Rightarrow> error + session_state" where
  "assign_virt_base SEOUL r st =
     (if text_truthy (get (virt_base_iso r))
      then ebind (getitem (virt_base_iso r)) (\<lambda>s.
           ebind (from_iso SEOUL s) (\<lambda>d. Inr (st\<lparr>virt_base := d\<rparr>)))
      else Inr st)"

definition assign_virt_adjust :: "row \<Rightarrow> session_state \<Rightarrow> error + session_state" where
  "assign_virt_adjust r st =
     ebind (py_int (get_default (virt_adjust_sec r) 0)) (\<lambda>n.
     ebind (mk_timedelta (seconds n)) (\<lambda>td. Inr (st\<lparr>virt_adjust := td\<rparr>)))"

definition assign_speed :: "row \<Rightarrow> session_state \<Rightarrow> error + session_state" where
  "assign_speed r st =
     ebind (py_int (get_default (row_speed r) DEFAULT_SPEED)) (\<lambda>n. Inr (st\<lparr>speed := n\<rparr>))"

definition assign_last_loaded_at :: "row \<Rightarrow> session_state \<Rightarrow> error + session_state" where
  "assign_last_loaded_at r st = Inr (st\<lparr>last_loaded_at := get (updated_at r)\<rparr>)"

definition apply_remote_state :: "zone \<Rightarrow> row \<Rightarrow> session_state \<Rightarrow> session_state" where
  "apply_remote_state SEOUL r st =
     run_statements
       [assign_real_base SEOUL r, assign_virt_base SEOUL r, assign_virt_adjust r,
        assign_speed r, assign_last_loaded_at r] st"

section \<open>The script\<close>

text \<open>The first run of a session: the defaults, then the remote row or its creation.\<close>

definition default_state :: "datetime \<Rightarrow> error + session_state" where
  "default_state now0 =
     ebind (get_default_real_base now0) (\<lambda>rb.
       (let vb = get_default_virt_base rb in
        Inr \<lparr>real_base = rb, virt_base = vb, real_base_init = rb, virt_base_init = vb,
             virt_adjust = 0, speed = DEFAULT_SPEED,
             last_loaded_at = None, last_saved_at = None, warnings = []\<rparr>))"

definition initialize ::
  "zone \<Rightarrow> string \<Rightarrow> store option \<Rightarrow> datetime \<Rightarrow> error + session_state \<times> store option" where
  "initialize SEOUL now_iso supabase now0 =
     ebind (default_state now0) (\<lambda>st.
     ebind (load_remote_state supabase) (\<lambda>r.
       (case r of
          None \<Rightarrow> (if supabase \<noteq> None then save_remote_state SEOUL now_iso supabase st
                    else Inr (st, supabase))
        | Some r' \<Rightarrow> Inr (apply_remote_state SEOUL r' st, supabase))))"

text \<open>The pull of every run.\<close>

definition remote_pull :: "zone \<Rightarrow> store option \<Rightarrow> session_state \<Rightarrow> error + session_state" where
  "remote_pull SEOUL supabase st =
     (if supabase \<noteq> None then
        ebind (load_remote_state supabase) (\<lambda>r.
          (case r of
             None \<Rightarrow> Inr st
           | Some r' \<Rightarrow>
               (if row_truthy r' \<and> get (updated_at r') \<noteq> last_loaded_at st
                then Inr (apply_remote_state SEOUL r' st) else Inr st)))
      else Inr st)"

text \<open>The button that sets the clock to a target, and the one that resets the adjustment.\<close>

definition set_to_target :: "datetime \<Rightarrow> datetime \<Rightarrow> session_state \<Rightarrow> error + session_state" where
  "set_to_target target nowx st =
     ebind (td_mul (dt_diff nowx (real_base st)) (speed st)) (\<lambda>scaled.
     ebind (dt_add (virt_base st) scaled) (\<lambda>base_no_adj.
       Inr (st\<lparr>virt_adjust := dt_diff target base_no_adj\<rparr>)))"

definition reset_adjust :: "session_state \<Rightarrow> session_state" where
  "reset_adjust st = st\<lparr>virt_adjust := 0\<rparr>"

text \<open>The speed buttons: the button of index \<open>i\<close> was pressed, then the state is saved.\<close>

definition SPEEDS :: "int list" where
  "SPEEDS = [1, 2, 3, 4, 6, 9]"

definition speed_button :: "nat \<Rightarrow> session_state \<Rightarrow> session_state" where
  "speed_button i st = (if i < length SPEEDS then st\<lparr>speed := SPEEDS ! i\<rparr> else st)"

definition press_speed ::
  "zone \<Rightarrow> string \<Rightarrow> store option \<Rightarrow> nat \<Rightarrow> session_state \<Rightarrow> error + session_state \<times> store option" where
  "press_speed SEOUL now_iso supabase i st =
     save_remote_state SEOUL now_iso supabase (speed_button i st)"

text \<open>The button that resets everything.\<close>

definition reset_all ::
  "zone \<Rightarrow> string \<Rightarrow> store option \<Rightarrow> datetime \<Rightarrow> session_state \<Rightarrow> error + session_state \<times> store option" where
  "reset_all SEOUL now_iso supabase nowx st =
     ebind (get_default_real_base nowx) (\<lambda>rb.
       (let vb = get_default_virt_base rb in
        save_remote_state SEOUL now_iso supabase
          (st\<lparr>real_base := rb, virt_base := vb, real_base_init := rb, virt_base_init := vb,
              virt_adjust := 0, speed := DEFAULT_SPEED\<rparr>)))"

section \<open>Properties of the specification\<close>

text \<open>The invariant of the data model, for a session and for the speed a row would give it.\<close>

definition speed_invariant :: "session_state \<Rightarrow> bool" where
  "speed_invariant st \<longleftrightarrow> 1 \<le> speed st"

definition row_speed_valid :: "row \<Rightarrow> bool" where
  "row_speed_valid r \<longleftrightarrow> (case get_default (row_speed r) DEFAULT_SPEED of None \<Rightarrow> True | Some n \<Rightarrow> 1 \<le> n)"

text \<open>
  ``All local configuration fields are overwritten with the remote row's values and
  \<open>last_loaded_at\<close> is set to the remote \<open>updated_at\<close>'', for a row \<open>r\<close> and the state
  \<open>st'\<close> after the load.
\<close>

definition overwritten_with :: "zone \<Rightarrow> row \<Rightarrow> session_state \<Rightarrow> bool" where
  "overwritten_with SEOUL r st' \<longleftrightarrow>
     map_option (from_iso SEOUL) (get (real_base_iso r)) = Some (Inr (real_base st')) \<and>
     map_option (from_iso SEOUL) (get (virt_base_iso r)) = Some (Inr (virt_base st')) \<and>
     map_option seconds (get (virt_adjust_sec r)) = Some (virt_adjust st') \<and>
     get (row_speed r) = Some (speed st') \<and>
     last_loaded_at st' = get (updated_at r)"

text \<open>
  The row that the table definition at the end of the script inserts:
  \<^verbatim>\<open>insert into public.timer_state (id) values (1)\<close>, every other column at its default.
\<close>

definition seeded_row :: "string \<Rightarrow> row" where
  "seeded_row ts =
     \<lparr>row_id = Val ROW_ID, real_base_iso = Null, virt_base_iso = Null,
      virt_adjust_sec = Val 0, row_speed = Val DEFAULT_SPEED, updated_at = Val ts\<rparr>"

section \<open>Rounding: order and exact cases\<close>

subsection \<open>Powers of two and the binary exponent\<close>

lemma pow2_pos: "0 < pow2 e"
  by (simp add: pow2_def)

lemma pow2_add: "pow2 (a + b) = pow2 a * pow2 b"
  by (simp add: pow2_def power_int_add)

lemma pow2_nat: "0 \<le> e \<Longrightarrow> pow2 e = 2 ^ nat e"
  by (simp add: pow2_def power_int_def)

lemma pow2_less: "a < b \<Longrightarrow> pow2 a < pow2 b"
  by (simp add: pow2_def power_int_strict_increasing)

lemma pow2_le: "a \<le> b \<Longrightarrow> pow2 a \<le> pow2 b"
  by (simp add: pow2_def power_int_increasing)

lemma pow2_less_imp: "pow2 a < pow2 b \<Longrightarrow> a < b"
  using pow2_le [of b a] by (cases "a < b") auto

lemma pow2_diff: "pow2 (a - b) = pow2 a / pow2 b"
  by (simp add: pow2_def power_int_diff)

lemma bitlen_rat_bounds:
  assumes "0 < a"
  shows "pow2 (bitlen a - 1) \<le> of_int a" and "(of_int a :: rat) < pow2 (bitlen a)"
proof -
  from assms have b1: "1 \<le> bitlen a" by (auto simp: bitlen_alt_def)
  from bitlen_bounds [OF assms]
  have lo: "2 ^ nat (bitlen a - 1) \<le> a" and hi: "a < 2 ^ nat (bitlen a)" by auto
  from lo have "(of_int (2 ^ nat (bitlen a - 1)) :: rat) \<le> of_int a"
    by (simp only: of_int_le_iff)
  with b1 show "pow2 (bitlen a - 1) \<le> of_int a" by (simp add: pow2_nat)
  from hi have "(of_int a :: rat) < of_int (2 ^ nat (bitlen a))"
    by (simp only: of_int_less_iff)
  with b1 show "(of_int a :: rat) < pow2 (bitlen a)" by (simp add: pow2_nat)
qed

lemma ilog2_bounds:
  assumes "0 < q"
  shows "pow2 (ilog2 q) \<le> q \<and> q < pow2 (ilog2 q + 1)"
proof -
  obtain a b where ab: "quotient_of q = (a, b)" by (cases "quotient_of q")
  then have b: "0 < b" and q: "q = of_int a / of_int b"
    by (auto dest: quotient_of_denom_pos quotient_of_div)
  with assms have a: "0 < a" by (simp add: zero_less_divide_iff)
  define d where "d = bitlen a - bitlen b"
  have bq: "(0::rat) < of_int b" using b by simp
  have "q < pow2 (bitlen a) / pow2 (bitlen b - 1)"
  proof -
    have "q < pow2 (bitlen a) / of_int b"
      unfolding q using bitlen_rat_bounds(2) [OF a] bq by (simp add: divide_strict_right_mono)
    also have "\<dots> \<le> pow2 (bitlen a) / pow2 (bitlen b - 1)"
      using bitlen_rat_bounds(1) [OF b] pow2_pos [of "bitlen a"] pow2_pos [of "bitlen b - 1"]
      by (simp add: frac_le)
    finally show ?thesis .
  qed
  then have hi: "q < pow2 (d + 1)"
    by (simp add: d_def flip: pow2_diff) (simp add: algebra_simps)
  have "pow2 (bitlen a - 1) / pow2 (bitlen b) \<le> q"
  proof -
    have "pow2 (bitlen a - 1) / pow2 (bitlen b) \<le> pow2 (bitlen a - 1) / of_int b"
      using bitlen_rat_bounds(2) [OF b] pow2_pos [of "bitlen a - 1"] bq
      by (simp add: frac_le)
    also have "\<dots> \<le> q"
      unfolding q using bitlen_rat_bounds(1) [OF a] bq by (simp add: divide_right_mono)
    finally show ?thesis .
  qed
  then have lo: "pow2 (d - 1) \<le> q"
    by (simp add: d_def flip: pow2_diff) (simp add: algebra_simps)
  have il: "ilog2 q = (if pow2 d \<le> q then d else d - 1)"
    by (simp add: ilog2_def ab d_def Let_def)
  show ?thesis
  proof (cases "pow2 d \<le> q")
    case True
    with il hi show ?thesis by simp
  next
    case False
    with il lo show ?thesis by simp
  qed
qed

lemma ilog2_unique:
  assumes "pow2 e \<le> q" and "q < pow2 (e + 1)"
  shows "ilog2 q = e"
proof -
  have q: "0 < q" using assms(1) pow2_pos [of e] by simp
  from ilog2_bounds [OF q] have lo: "pow2 (ilog2 q) \<le> q" and hi: "q < pow2 (ilog2 q + 1)"
    by auto
  from lo assms(2) have "pow2 (ilog2 q) < pow2 (e + 1)" by simp
  then have 1: "ilog2 q < e + 1" by (rule pow2_less_imp)
  from assms(1) hi have "pow2 e < pow2 (ilog2 q + 1)" by simp
  then have 2: "e < ilog2 q + 1" by (rule pow2_less_imp)
  from 1 2 show ?thesis by simp
qed

subsection \<open>Rounding to the nearest integer\<close>

lemma rne_of_int: "rne (of_int k) = k"
  by (simp add: rne_def)

lemma rne_cases: "rne q = \<lfloor>q\<rfloor> \<or> rne q = \<lfloor>q\<rfloor> + 1"
  by (simp add: rne_def Let_def)

lemma rne_ge_floor: "\<lfloor>q\<rfloor> \<le> rne q"
  using rne_cases [of q] by auto

lemma rne_le_floor1: "rne q \<le> \<lfloor>q\<rfloor> + 1"
  using rne_cases [of q] by auto

lemma rne_mono:
  assumes "a \<le> b"
  shows "rne a \<le> rne b"
proof (cases "\<lfloor>a\<rfloor> = \<lfloor>b\<rfloor>")
  case True
  with assms show ?thesis by (auto simp: rne_def Let_def)
next
  case False
  with assms have "\<lfloor>a\<rfloor> < \<lfloor>b\<rfloor>" using floor_mono [of a b] by simp
  with rne_le_floor1 [of a] rne_ge_floor [of b] show ?thesis by simp
qed

lemma rne_le_int: "q \<le> of_int k \<Longrightarrow> rne q \<le> k"
  using rne_mono [of q "of_int k"] by (simp add: rne_of_int)

lemma rne_ge_int: "of_int k \<le> q \<Longrightarrow> k \<le> rne q"
  using rne_mono [of "of_int k" q] by (simp add: rne_of_int)

lemma rne_minus: "rne (- q) = - rne q"
proof (cases "q = of_int \<lfloor>q\<rfloor>")
  case True
  then obtain k where "q = of_int k" ..
  then have "rne (- q) = rne (of_int (- k))" by simp
  also have "\<dots> = - k" by (simp only: rne_of_int)
  finally show ?thesis using \<open>q = of_int k\<close> by (simp add: rne_of_int)
next
  case False
  then have c: "\<lceil>q\<rceil> = \<lfloor>q\<rfloor> + 1"
    by (metis ceiling_altdef)
  have f: "\<lfloor>- q\<rfloor> = - \<lfloor>q\<rfloor> - 1"
    using c by (simp add: ceiling_def)
  show ?thesis
    unfolding rne_def Let_def f
    by (auto simp: algebra_simps)
qed

lemma rne_unique: "of_int n - 1 / 2 < q \<Longrightarrow> q < of_int n + 1 / 2 \<Longrightarrow> rne q = n"
proof -
  assume lo: "of_int n - 1 / 2 < q" and hi: "q < of_int n + 1 / 2"
  have a: "n - 1 \<le> \<lfloor>q\<rfloor>" using lo by (simp add: le_floor_iff) 
  have b: "\<lfloor>q\<rfloor> \<le> n" using hi by (simp add: floor_le_iff)
  from a b consider "\<lfloor>q\<rfloor> = n" | "\<lfloor>q\<rfloor> = n - 1" by linarith
  then show ?thesis
  proof cases
    case 1
    with hi show ?thesis by (simp add: rne_def Let_def)
  next
    case 2
    with lo show ?thesis by (auto simp add: rne_def Let_def)
  qed
qed

subsection \<open>Rounding to 53 bits is monotone and exact on small integers\<close>

lemma fl_zero: "fl 0 = 0"
  by (simp add: fl_def)

lemma fl_minus: "fl (- q) = - fl q"
  by (simp add: fl_def Let_def rne_minus)

lemma fl_pos_eq:
  "0 < q \<Longrightarrow> fl q = of_int (rne (q / pow2 (ilog2 q - 52))) * pow2 (ilog2 q - 52)"
  by (simp add: fl_def Let_def)

lemma scaled_bounds:
  assumes "0 < q"
  shows "pow2 52 \<le> q / pow2 (ilog2 q - 52)" and "q / pow2 (ilog2 q - 52) < pow2 53"
proof -
  from ilog2_bounds [OF assms]
  have lo: "pow2 (ilog2 q) \<le> q" and hi: "q < pow2 (ilog2 q + 1)" by auto
  have p: "0 < pow2 (ilog2 q - 52)" by (rule pow2_pos)
  have "pow2 52 * pow2 (ilog2 q - 52) = pow2 (ilog2 q)"
    by (simp flip: pow2_add)
  with lo p show "pow2 52 \<le> q / pow2 (ilog2 q - 52)"
    by (simp add: pos_le_divide_eq)
  have "pow2 53 * pow2 (ilog2 q - 52) = pow2 (53 + (ilog2 q - 52))"
    by (simp only: pow2_add)
  then have "pow2 53 * pow2 (ilog2 q - 52) = pow2 (ilog2 q + 1)"
    by (simp add: add.commute)
  with hi p show "q / pow2 (ilog2 q - 52) < pow2 53"
    by (simp add: pos_divide_less_eq)
qed

lemma pow2_of_int: "0 \<le> e \<Longrightarrow> pow2 e = of_int (2 ^ nat e)"
  by (simp add: pow2_nat)

lemma fl_lower:
  assumes "0 < q"
  shows "pow2 (ilog2 q) \<le> fl q"
proof -
  have "of_int (2 ^ 52) \<le> q / pow2 (ilog2 q - 52)"
    using scaled_bounds(1) [OF assms] by (simp add: pow2_nat)
  then have "2 ^ 52 \<le> rne (q / pow2 (ilog2 q - 52))"
    by (rule rne_ge_int)
  then have "(of_int (2 ^ 52) :: rat) \<le> of_int (rne (q / pow2 (ilog2 q - 52)))"
    by (simp only: of_int_le_iff)
  then have "pow2 52 * pow2 (ilog2 q - 52) \<le> fl q"
    unfolding fl_pos_eq [OF assms] using pow2_pos [of "ilog2 q - 52"]
    by (simp add: pow2_nat mult_right_mono)
  then show ?thesis by (simp flip: pow2_add)
qed

lemma fl_upper:
  assumes "0 < q"
  shows "fl q \<le> pow2 (ilog2 q + 1)"
proof -
  have "q / pow2 (ilog2 q - 52) \<le> of_int (2 ^ 53)"
    using scaled_bounds(2) [OF assms] by (simp add: pow2_nat)
  then have "rne (q / pow2 (ilog2 q - 52)) \<le> 2 ^ 53"
    by (rule rne_le_int)
  then have "(of_int (rne (q / pow2 (ilog2 q - 52))) :: rat) \<le> of_int (2 ^ 53)"
    by (simp only: of_int_le_iff)
  then have "fl q \<le> pow2 53 * pow2 (ilog2 q - 52)"
    unfolding fl_pos_eq [OF assms] using pow2_pos [of "ilog2 q - 52"]
    by (simp add: pow2_nat mult_right_mono)
  also have "pow2 53 * pow2 (ilog2 q - 52) = pow2 (53 + (ilog2 q - 52))"
    by (simp only: pow2_add)
  also have "53 + (ilog2 q - 52) = ilog2 q + 1" by simp
  finally show ?thesis .
qed

lemma fl_pos: "0 < q \<Longrightarrow> 0 < fl q"
  using fl_lower [of q] pow2_pos [of "ilog2 q"] by simp

lemma ilog2_mono:
  assumes "0 < a" and "a \<le> b"
  shows "ilog2 a \<le> ilog2 b"
proof -
  have b: "0 < b" using assms by simp
  from ilog2_bounds [OF assms(1)] ilog2_bounds [OF b] assms(2)
  have "pow2 (ilog2 a) < pow2 (ilog2 b + 1)" by simp
  then have "ilog2 a < ilog2 b + 1" by (rule pow2_less_imp)
  then show ?thesis by simp
qed

lemma fl_mono_pos:
  assumes "0 < a" and "a \<le> b"
  shows "fl a \<le> fl b"
proof (cases "ilog2 a = ilog2 b")
  case True
  have b: "0 < b" using assms by simp
  have "a / pow2 (ilog2 b - 52) \<le> b / pow2 (ilog2 b - 52)"
    using assms(2) pow2_pos [of "ilog2 b - 52"] by (simp add: divide_right_mono)
  then have "rne (a / pow2 (ilog2 b - 52)) \<le> rne (b / pow2 (ilog2 b - 52))"
    by (rule rne_mono)
  then have "(of_int (rne (a / pow2 (ilog2 b - 52))) :: rat) \<le> of_int (rne (b / pow2 (ilog2 b - 52)))"
    by (simp only: of_int_le_iff)
  then show ?thesis
    unfolding fl_pos_eq [OF assms(1)] fl_pos_eq [OF b] True
    using pow2_pos [of "ilog2 b - 52"] by (simp add: mult_right_mono)
next
  case False
  have b: "0 < b" using assms by simp
  from False ilog2_mono [OF assms] have "ilog2 a + 1 \<le> ilog2 b" by simp
  then have "pow2 (ilog2 a + 1) \<le> pow2 (ilog2 b)" by (rule pow2_le)
  with fl_upper [OF assms(1)] fl_lower [OF b] show ?thesis by simp
qed

lemma fl_nonneg: "0 \<le> q \<Longrightarrow> 0 \<le> fl q"
  using fl_pos [of q] by (cases "q = 0") (auto simp: fl_zero)

lemma fl_nonpos: "q \<le> 0 \<Longrightarrow> fl q \<le> 0"
  using fl_nonneg [of "- q"] by (simp add: fl_minus)

lemma fl_mono:
  assumes "a \<le> b"
  shows "fl a \<le> fl b"
proof -
  consider "0 < a" | "a \<le> 0" "0 \<le> b" | "b < 0" by linarith
  then show ?thesis
  proof cases
    case 1
    then show ?thesis using assms by (rule fl_mono_pos)
  next
    case 2
    with fl_nonpos [of a] fl_nonneg [of b] show ?thesis by simp
  next
    case 3
    then have "0 < - b" and "- b \<le> - a" using assms by auto
    then have "fl (- b) \<le> fl (- a)" by (rule fl_mono_pos)
    then show ?thesis by (simp add: fl_minus)
  qed
qed

lemma fl_of_int_pos:
  assumes "0 < k" and "k < 2 ^ 53"
  shows "fl (of_int k) = of_int k"
proof -
  define q :: rat where "q = of_int k"
  define i where "i = ilog2 q"
  have q: "0 < q" using assms by (simp add: q_def)
  have "of_int k < (of_int (2 ^ 53) :: rat)"
    using assms(2) by (simp only: of_int_less_iff)
  then have "q < pow2 53" by (simp add: pow2_nat q_def)
  with ilog2_bounds [OF q] have "pow2 i < pow2 53" by (simp add: i_def)
  then have "i < 53" by (rule pow2_less_imp)
  then have e: "0 \<le> 52 - i" by simp
  have "pow2 (52 - i) * pow2 (i - 52) = pow2 ((52 - i) + (i - 52))"
    by (simp only: pow2_add)
  also have "(52 - i) + (i - 52) = 0" by simp
  finally have one: "pow2 (52 - i) * pow2 (i - 52) = 1" by (simp add: pow2_def)
  have p: "0 < pow2 (i - 52)" by (rule pow2_pos)
  have inv: "q / pow2 (i - 52) = q * pow2 (52 - i)"
  proof -
    have "q * pow2 (52 - i) * pow2 (i - 52) = q" by (simp only: mult.assoc one mult_1_right)
    then show ?thesis using p by (simp add: divide_eq_eq)
  qed
  have "q * pow2 (52 - i) = of_int (k * 2 ^ nat (52 - i))"
    using e by (simp add: pow2_nat q_def)
  with inv have sc: "q / pow2 (i - 52) = of_int (k * 2 ^ nat (52 - i))" by simp
  have r: "rne (q / pow2 (i - 52)) = k * 2 ^ nat (52 - i)"
    unfolding sc by (rule rne_of_int)
  have "fl q = of_int (rne (q / pow2 (i - 52))) * pow2 (i - 52)"
    unfolding i_def by (rule fl_pos_eq [OF q])
  also have "\<dots> = of_int (k * 2 ^ nat (52 - i)) * pow2 (i - 52)"
    by (simp only: r)
  also have "\<dots> = q * pow2 (52 - i) * pow2 (i - 52)"
    using e by (simp add: pow2_nat q_def)
  also have "\<dots> = q" by (simp only: mult.assoc one mult_1_right)
  finally show ?thesis by (simp only: q_def)
qed

lemma fl_of_int:
  assumes "\<bar>k\<bar> < 2 ^ 53"
  shows "fl (of_int k) = of_int k"
proof -
  consider "0 < k" | "k = 0" | "k < 0" by linarith
  then show ?thesis
  proof cases
    case 1
    with assms show ?thesis by (simp only: fl_of_int_pos abs_of_pos)
  next
    case 2
    then show ?thesis by (simp add: fl_zero)
  next
    case 3
    with assms have "0 < - k" and "- k < 2 ^ 53" by auto
    then have "fl (of_int (- k)) = of_int (- k)" by (rule fl_of_int_pos)
    then show ?thesis by (simp add: fl_minus)
  qed
qed

text \<open>The relative error of a rounding is at most \<open>1 / 2 ^ 53\<close> of the value.\<close>

lemma rne_error: "\<bar>of_int (rne q) - q\<bar> \<le> 1 / 2"
proof -
  have f: "of_int \<lfloor>q\<rfloor> \<le> q" and c: "q < of_int \<lfloor>q\<rfloor> + 1" by linarith+
  show ?thesis
    using f c by (auto simp: rne_def Let_def abs_le_iff)
qed

lemma fl_error_pos:
  assumes "0 < q"
  shows "\<bar>fl q - q\<bar> \<le> q / 2 ^ 53"
proof -
  define p where "p = pow2 (ilog2 q - 52)"
  define sc where "sc = q / p"
  have p: "0 < p" unfolding p_def by (rule pow2_pos)
  have q: "q = sc * p" using p by (simp add: sc_def)
  have lo: "2 ^ 52 \<le> sc" using scaled_bounds(1) [OF assms] by (simp add: sc_def p_def pow2_nat)
  have "fl q = of_int (rne sc) * p"
    unfolding fl_pos_eq [OF assms] by (simp only: sc_def p_def)
  moreover have "(of_int (rne sc) - sc) * p = of_int (rne sc) * p - sc * p"
    by (simp add: algebra_simps)
  ultimately have "fl q - q = (of_int (rne sc) - sc) * p"
    using q by simp
  then have "\<bar>fl q - q\<bar> = \<bar>of_int (rne sc) - sc\<bar> * p"
    using p by (simp add: abs_mult)
  also have "\<dots> \<le> (1 / 2) * p"
    using rne_error [of sc] p by (intro mult_right_mono) simp_all
  also have "\<dots> \<le> (sc / 2 ^ 53) * p"
    using lo p by (intro mult_right_mono) simp_all
  also have "\<dots> = q / 2 ^ 53" by (simp add: q)
  finally show ?thesis .
qed

lemma fl_error: "\<bar>fl q - q\<bar> \<le> \<bar>q\<bar> / 2 ^ 53"
proof -
  consider "0 < q" | "q = 0" | "q < 0" by linarith
  then show ?thesis
  proof cases
    case 1
    then show ?thesis using fl_error_pos [of q] by simp
  next
    case 2
    then show ?thesis by (simp add: fl_zero)
  next
    case 3
    then have "\<bar>fl (- q) - (- q)\<bar> \<le> (- q) / 2 ^ 53" by (intro fl_error_pos) simp
    then show ?thesis using 3 by (simp add: fl_minus abs_minus_commute)
  qed
qed

subsection \<open>The conversions between durations and floating point seconds\<close>

lemma trunc_mono:
  assumes "x \<le> y"
  shows "trunc x \<le> trunc y"
proof -
  consider "0 \<le> x" | "x < 0" "0 \<le> y" | "y < 0" by linarith
  then show ?thesis
  proof cases
    case 1
    with assms show ?thesis by (simp add: trunc_def floor_mono)
  next
    case 2
    then have a: "0 \<le> \<lfloor>- x\<rfloor>" and b: "0 \<le> \<lfloor>y\<rfloor>" by simp_all
    have "trunc x = - \<lfloor>- x\<rfloor>" and "trunc y = \<lfloor>y\<rfloor>"
      using 2 by (simp_all add: trunc_def)
    with a b show ?thesis by linarith
  next
    case 3
    with assms have "\<lfloor>- y\<rfloor> \<le> \<lfloor>- x\<rfloor>" by (intro floor_mono) simp
    with 3 assms show ?thesis by (simp add: trunc_def)
  qed
qed

lemma frac_part_nonneg: "0 \<le> x \<Longrightarrow> 0 \<le> frac_part x \<and> frac_part x < 1"
  unfolding frac_part_def trunc_def by simp linarith

lemma frac_part_nonpos: "x \<le> 0 \<Longrightarrow> - 1 < frac_part x \<and> frac_part x \<le> 0"
  unfolding frac_part_def trunc_def by (cases "x = 0") (simp, simp, linarith)

lemma fl_million: "fl 1000000 = 1000000"
  using fl_of_int [of 1000000] by simp

lemma us_part_nonneg:
  assumes "0 \<le> f" and "f < 1"
  shows "0 \<le> rne (fmul (of_int US_PER_SECOND) f)" and "rne (fmul (of_int US_PER_SECOND) f) \<le> US_PER_SECOND"
proof -
  have "0 \<le> 1000000 * f" and "1000000 * f \<le> 1000000" using assms by auto
  then have "fl 0 \<le> fl (1000000 * f)" and "fl (1000000 * f) \<le> fl 1000000"
    by (auto intro: fl_mono)
  then have a: "of_int 0 \<le> fmul (of_int US_PER_SECOND) f"
    and b: "fmul (of_int US_PER_SECOND) f \<le> of_int 1000000"
    by (simp_all add: fl_zero fl_million fmul_def US_PER_SECOND_def)
  from a show "0 \<le> rne (fmul (of_int US_PER_SECOND) f)" by (rule rne_ge_int)
  from b show "rne (fmul (of_int US_PER_SECOND) f) \<le> US_PER_SECOND"
    unfolding US_PER_SECOND_def by (rule rne_le_int)
qed

lemma fmul_minus_right: "fmul a (- b) = - fmul a b"
  by (simp add: fmul_def fl_minus)

lemma us_part_nonpos:
  assumes "- 1 < f" and "f \<le> 0"
  shows "- US_PER_SECOND \<le> rne (fmul (of_int US_PER_SECOND) f)" and "rne (fmul (of_int US_PER_SECOND) f) \<le> 0"
proof -
  have "0 \<le> - f" and "- f < 1" using assms by auto
  from us_part_nonneg [OF this]
  show "- US_PER_SECOND \<le> rne (fmul (of_int US_PER_SECOND) f)" and "rne (fmul (of_int US_PER_SECOND) f) \<le> 0"
    by (simp_all add: fmul_minus_right rne_minus)
qed

lemma us_part_mono:
  "f \<le> g \<Longrightarrow> rne (fmul (of_int US_PER_SECOND) f) \<le> rne (fmul (of_int US_PER_SECOND) g)"
  unfolding fmul_def US_PER_SECOND_def by (intro rne_mono fl_mono) simp

lemma microseconds_of_float_seconds_mono:
  assumes "x \<le> y"
  shows "microseconds_of_float_seconds x \<le> microseconds_of_float_seconds y"
proof (cases "trunc x = trunc y")
  case True
  then have "frac_part x \<le> frac_part y" using assms by (simp add: frac_part_def)
  then show ?thesis
    unfolding microseconds_of_float_seconds_def True by (simp add: us_part_mono)
next
  case False
  with trunc_mono [OF assms] have lt: "trunc x + 1 \<le> trunc y" by simp
  then have step: "trunc x * US_PER_SECOND + US_PER_SECOND \<le> trunc y * US_PER_SECOND"
    by (simp add: US_PER_SECOND_def)
  consider "0 \<le> x" | "x < 0" "0 \<le> y" | "y < 0" by linarith
  then show ?thesis
  proof cases
    case 1
    then have y: "0 \<le> y" using assms by simp
    from us_part_nonneg(2) [of "frac_part x"] frac_part_nonneg [OF 1]
    have "microseconds_of_float_seconds x \<le> trunc x * US_PER_SECOND + US_PER_SECOND"
      by (simp add: microseconds_of_float_seconds_def)
    moreover from us_part_nonneg(1) [of "frac_part y"] frac_part_nonneg [OF y]
    have "trunc y * US_PER_SECOND \<le> microseconds_of_float_seconds y"
      by (simp add: microseconds_of_float_seconds_def)
    ultimately show ?thesis using step by simp
  next
    case 2
    then have x: "x \<le> 0" by simp
    have a: "0 \<le> \<lfloor>- x\<rfloor>" using 2 by simp
    have "trunc x = - \<lfloor>- x\<rfloor>" using 2 by (simp add: trunc_def)
    with a have tx: "trunc x \<le> 0" by linarith
    have ty: "0 \<le> trunc y" using 2 by (simp add: trunc_def)
    from us_part_nonpos(2) [of "frac_part x"] frac_part_nonpos [OF x]
    have "microseconds_of_float_seconds x \<le> trunc x * US_PER_SECOND"
      by (simp add: microseconds_of_float_seconds_def)
    moreover from us_part_nonneg(1) [of "frac_part y"] frac_part_nonneg [OF 2(2)]
    have "trunc y * US_PER_SECOND \<le> microseconds_of_float_seconds y"
      by (simp add: microseconds_of_float_seconds_def)
    moreover have "trunc x * US_PER_SECOND \<le> 0" and "0 \<le> trunc y * US_PER_SECOND"
      using tx ty by (simp_all add: US_PER_SECOND_def)
    ultimately show ?thesis by linarith
  next
    case 3
    then have y: "y \<le> 0" and x: "x \<le> 0" using assms by simp_all
    from us_part_nonpos(2) [of "frac_part x"] frac_part_nonpos [OF x]
    have "microseconds_of_float_seconds x \<le> trunc x * US_PER_SECOND"
      by (simp add: microseconds_of_float_seconds_def)
    moreover from us_part_nonpos(1) [of "frac_part y"] frac_part_nonpos [OF y]
    have "trunc y * US_PER_SECOND - US_PER_SECOND \<le> microseconds_of_float_seconds y"
      by (simp add: microseconds_of_float_seconds_def)
    ultimately show ?thesis using step by linarith
  qed
qed

lemma total_seconds_mono: "a \<le> b \<Longrightarrow> total_seconds a \<le> total_seconds b"
  unfolding total_seconds_def US_PER_SECOND_def by (intro fl_mono) (simp add: divide_right_mono)

lemma fmul_mono_left: "0 \<le> s \<Longrightarrow> a \<le> b \<Longrightarrow> fmul a s \<le> fmul b s"
  unfolding fmul_def by (intro fl_mono) (simp add: mult_right_mono)

lemma float_of_int_nonneg: "0 \<le> k \<Longrightarrow> float_of_int k = Inr s \<Longrightarrow> 0 \<le> s"
  by (auto simp: float_of_int_def split: if_splits intro: fl_nonneg)

lemma replace_microsecond0_mono: "a \<le> b \<Longrightarrow> replace_microsecond0 a \<le> replace_microsecond0 b"
proof -
  assume ab: "a \<le> b"
  have "replace_microsecond0 a = (a div 1000000) * 1000000"
    and "replace_microsecond0 b = (b div 1000000) * 1000000"
    by (simp_all add: replace_microsecond0_def US_PER_SECOND_def minus_mod_eq_div_mult)
  moreover have "a div 1000000 \<le> b div 1000000" using ab by (simp add: zdiv_mono1)
  ultimately show ?thesis by simp
qed

text \<open>The value of a rounding, from the binade and the nearest significand.\<close>

lemma fl_eqI:
  assumes "pow2 e \<le> \<bar>q\<bar>" and "\<bar>q\<bar> < pow2 (e + 1)"
    and "of_int n - 1 / 2 < q / pow2 (e - 52)" and "q / pow2 (e - 52) < of_int n + 1 / 2"
  shows "fl q = of_int n * pow2 (e - 52)"
proof -
  have "ilog2 \<bar>q\<bar> = e" using assms(1,2) by (rule ilog2_unique)
  moreover have "q \<noteq> 0" using assms(1) pow2_pos [of e] by auto
  moreover have "rne (q / pow2 (e - 52)) = n" using assms(3,4) by (rule rne_unique)
  ultimately show ?thesis by (simp add: fl_def)
qed

lemma float_of_int_small: "\<bar>k\<bar> < 2 ^ 53 \<Longrightarrow> float_of_int k = Inr (of_int k)"
proof -
  assume k: "\<bar>k\<bar> < 2 ^ 53"
  then have "\<bar>of_int k :: rat\<bar> < of_int (2 ^ 53)"
    by (simp only: of_int_less_iff flip: of_int_abs)
  also have "(of_int (2 ^ 53) :: rat) < pow2 1024" by (simp add: pow2_def)
  finally show ?thesis using k by (simp add: float_of_int_def fl_of_int)
qed

lemma microseconds_of_whole_seconds:
  "microseconds_of_float_seconds (of_int n) = n * US_PER_SECOND"
  by (simp add: microseconds_of_float_seconds_def trunc_def frac_part_def fmul_def fl_zero rne_def)

lemma trunc_of_int: "trunc (of_int n) = n"
  by (simp add: trunc_def)

lemma total_seconds_whole:
  assumes "\<bar>n\<bar> < 2 ^ 53"
  shows "total_seconds (seconds n) = of_int n"
  using fl_of_int [OF assms] by (simp add: total_seconds_def seconds_def US_PER_SECOND_def)

lemma scaled_whole_seconds:
  assumes "\<bar>n\<bar> < 2 ^ 53" and "\<bar>n * k\<bar> < 2 ^ 53"
  shows "microseconds_of_float_seconds (fmul (total_seconds (seconds n)) (of_int k)) = seconds (n * k)"
proof -
  have "fmul (of_int n) (of_int k) = of_int (n * k)"
    using fl_of_int [OF assms(2)] by (simp add: fmul_def)
  then have "fmul (total_seconds (seconds n)) (of_int k) = of_int (n * k)"
    by (simp only: total_seconds_whole [OF assms(1)])
  then show ?thesis
    by (simp only: microseconds_of_whole_seconds seconds_def)
qed

lemma valid_timedelta_bound:
  assumes "valid_timedelta d"
  shows "\<bar>d div US_PER_SECOND\<bar> < 2 ^ 53"
proof -
  define q where "q = d div 86400000000"
  define r where "r = d mod 86400000000"
  have d: "d = q * 86400000000 + r" and r: "0 \<le> r" "r < 86400000000"
    by (simp_all add: q_def r_def)
  from assms have q: "- 999999999 \<le> q" "q \<le> 999999999"
    by (simp_all add: valid_timedelta_def MAX_DELTA_DAYS_def US_PER_DAY_def q_def)
  define n where "n = d div 1000000"
  define m where "m = d mod 1000000"
  have n: "d = n * 1000000 + m" and m: "0 \<le> m" "m < 1000000"
    by (simp_all add: n_def m_def)
  from d r q n m have "- 86400000000000 \<le> n" and "n \<le> 86400000000000" by linarith+
  then have "\<bar>n\<bar> < 2 ^ 53" by simp
  then show ?thesis by (simp add: n_def US_PER_SECOND_def)
qed

lemma trunc_total_seconds_whole:
  assumes "valid_timedelta d" and "d mod US_PER_SECOND = 0"
  shows "seconds (trunc (total_seconds d)) = d"
proof -
  define n where "n = d div US_PER_SECOND"
  have d: "d = seconds n"
    using assms(2) by (simp add: n_def seconds_def mod_eq_0_iff_dvd)
  have "\<bar>n\<bar> < 2 ^ 53" unfolding n_def using assms(1) by (rule valid_timedelta_bound)
  then have "total_seconds (seconds n) = of_int n" by (rule total_seconds_whole)
  then show ?thesis by (simp add: d trunc_of_int)
qed

text \<open>
  Scaling in floating point is exact while the scaled time is at most \<open>2 ^ 50\<close>
  microseconds, a little under 36 years.
\<close>

lemma frac_part_abs: "\<bar>frac_part x\<bar> < 1"
  using frac_part_nonneg [of x] frac_part_nonpos [of x] by (cases "0 \<le> x") auto

lemma scaled_exact:
  assumes "\<bar>n * k\<bar> \<le> 2 ^ 50"
  shows "microseconds_of_float_seconds (fmul (total_seconds n) (of_int k)) = n * k"
proof -
  define a :: rat where "a = of_int n / 1000000"
  define K :: rat where "K = of_int k"
  define x1 where "x1 = fl a"
  define x2 where "x2 = fl (x1 * K)"
  define v where "v = a * K"
  define N where "N = n * k"
  define t where "t = trunc x2"
  define f where "f = frac_part x2"
  define y where "y = fl (1000000 * f)"
  define M where "M = N - t * 1000000"
  have v_eq: "1000000 * v = of_int N" by (simp add: v_def a_def K_def N_def)
  have "\<bar>of_int N :: rat\<bar> \<le> of_int (2 ^ 50)"
    using assms unfolding N_def by (simp only: of_int_le_iff flip: of_int_abs)
  then have "\<bar>1000000 * v\<bar> \<le> 2 ^ 50" by (simp add: v_eq)
  then have vb: "\<bar>v\<bar> \<le> 2 ^ 50 / 1000000" by (simp add: abs_mult field_simps)
  have e1: "\<bar>x1 - a\<bar> \<le> \<bar>a\<bar> / 2 ^ 53" unfolding x1_def by (rule fl_error)
  have e2: "\<bar>x2 - x1 * K\<bar> \<le> \<bar>x1 * K\<bar> / 2 ^ 53" unfolding x2_def by (rule fl_error)
  have "x1 * K - v = (x1 - a) * K" by (simp add: v_def algebra_simps)
  then have "\<bar>x1 * K - v\<bar> = \<bar>x1 - a\<bar> * \<bar>K\<bar>" by (simp add: abs_mult)
  also have "\<dots> \<le> (\<bar>a\<bar> / 2 ^ 53) * \<bar>K\<bar>" using e1 by (intro mult_right_mono) simp_all
  also have "\<dots> = \<bar>v\<bar> / 2 ^ 53" by (simp add: v_def abs_mult)
  finally have d1: "\<bar>x1 * K - v\<bar> \<le> \<bar>v\<bar> / 2 ^ 53" .
  have "\<bar>x1 * K\<bar> \<le> \<bar>v\<bar> + \<bar>v\<bar> / 2 ^ 53" using d1 by linarith
  also have "\<dots> \<le> 2 * \<bar>v\<bar>" by (simp add: field_simps)
  finally have "\<bar>x1 * K\<bar> / 2 ^ 53 \<le> 2 * \<bar>v\<bar> / 2 ^ 53" by (simp add: divide_right_mono)
  with e2 have d2: "\<bar>x2 - x1 * K\<bar> \<le> 2 * \<bar>v\<bar> / 2 ^ 53" by linarith
  have tri: "\<bar>x2 - v\<bar> \<le> \<bar>x2 - x1 * K\<bar> + \<bar>x1 * K - v\<bar>" by linarith
  have "\<bar>x2 - x1 * K\<bar> + \<bar>x1 * K - v\<bar> \<le> 2 * \<bar>v\<bar> / 2 ^ 53 + \<bar>v\<bar> / 2 ^ 53"
    using d1 d2 by (rule add_mono [rotated])
  also have "\<dots> = 3 * \<bar>v\<bar> / 2 ^ 53" by simp
  finally have "\<bar>x2 - v\<bar> \<le> 3 * \<bar>v\<bar> / 2 ^ 53" using tri by linarith
  also have "\<dots> \<le> 3 * (2 ^ 50 / 1000000) / 2 ^ 53"
    using vb by (intro divide_right_mono mult_left_mono) simp_all
  finally have d3: "\<bar>x2 - v\<bar> \<le> 3 / 8000000" by simp
  have "1000000 * x2 - of_int N = 1000000 * (x2 - v)"
    unfolding v_eq [symmetric] by (simp add: algebra_simps)
  then have "\<bar>1000000 * x2 - of_int N\<bar> = \<bar>1000000 * (x2 - v)\<bar>" by (simp only:)
  also have "\<dots> = 1000000 * \<bar>x2 - v\<bar>" by (simp only: abs_mult abs_numeral)
  finally have "\<bar>1000000 * x2 - of_int N\<bar> = 1000000 * \<bar>x2 - v\<bar>" .
  moreover have "1000000 * \<bar>x2 - v\<bar> \<le> 1000000 * (3 / 8000000)"
    using d3 by (rule mult_left_mono) simp
  ultimately have eps: "\<bar>1000000 * x2 - of_int N\<bar> \<le> 3 / 8" by simp
  have fb: "\<bar>f\<bar> < 1" unfolding f_def by (rule frac_part_abs)
  have "\<bar>y - 1000000 * f\<bar> \<le> \<bar>1000000 * f\<bar> / 2 ^ 53" unfolding y_def by (rule fl_error)
  also have "\<bar>1000000 * f\<bar> = 1000000 * \<bar>f\<bar>" by (simp only: abs_mult abs_numeral)
  also have "1000000 * \<bar>f\<bar> / 2 ^ 53 \<le> 1000000 * 1 / 2 ^ 53"
    using fb by (intro divide_right_mono mult_left_mono) simp_all
  also have "\<dots> \<le> 1 / 16" by simp
  finally have d4: "\<bar>y - 1000000 * f\<bar> \<le> 1 / 16" .
  have fM: "1000000 * f - of_int M = 1000000 * x2 - of_int N"
    by (simp add: f_def frac_part_def t_def M_def algebra_simps)
  from d4 eps fM have "\<bar>y - of_int M\<bar> < 1 / 2" by linarith
  then have "of_int M - 1 / 2 < y" and "y < of_int M + 1 / 2" by linarith+
  then have r: "rne y = M" by (rule rne_unique)
  have "microseconds_of_float_seconds x2 = t * 1000000 + rne y"
    by (simp add: microseconds_of_float_seconds_def t_def y_def f_def fmul_def US_PER_SECOND_def)
  also have "\<dots> = N" by (simp add: r M_def)
  finally show ?thesis
    by (simp add: x2_def x1_def a_def K_def N_def fmul_def total_seconds_def US_PER_SECOND_def)
qed

section \<open>Evaluation\<close>

lemmas calendar_defs = datetime_of_def days_before_year_def days_before_month_def
  days_in_month_def is_leap_def days_def hours_def minutes_def seconds_def
  US_PER_DAY_def US_PER_SECOND_def

lemmas range_defs = mk_timedelta_def valid_timedelta_def dt_add_def valid_datetime_def
  US_PER_DAY_def US_PER_SECOND_def MAX_ORDINAL_def MAX_DELTA_DAYS_def

lemmas store_defs = load_remote_state_def save_remote_state_def execute_select_def
  execute_upsert_def try_except_def ebind_def make_payload_def get_def str_of_error_def

lemmas apply_defs = apply_remote_state_def assign_real_base_def assign_virt_base_def
  assign_virt_adjust_def assign_speed_def assign_last_loaded_at_def get_def get_default_def
  getitem_def text_truthy_def py_int_def ebind_def

lemma compute_virtual_whole_seconds:
  assumes "\<bar>n\<bar> < 2 ^ 53" and "\<bar>k\<bar> < 2 ^ 53" and "\<bar>n * k\<bar> < 2 ^ 53"
    and "valid_timedelta (seconds (n * k))"
    and "valid_datetime (vb + seconds (n * k))" and "valid_datetime (vb + seconds (n * k) + adj)"
  shows "compute_virtual (configuration rb vb k adj) (rb + seconds n)
         = Inr (replace_microsecond0 (vb + seconds (n * k) + adj))"
  using assms(4-6)
  by (simp add: compute_virtual_def configuration_def dt_diff_def float_of_int_small [OF assms(2)]
      scaled_whole_seconds [OF assms(1,3)] ebind_def timedelta_of_float_seconds_def
      mk_timedelta_def dt_add_def)

section \<open>The shared record: conversions and what a statement leaves alone\<close>

lemma from_iso_to_iso:
  assumes "valid_datetime t" and "valid_datetime (t - utcoffset SEOUL t)"
    and "fromutc SEOUL (t - utcoffset SEOUL t) = t"
  shows "from_iso SEOUL (to_iso SEOUL t) = Inr t"
  using assms by (simp add: from_iso_def to_iso_def astimezone_def dt_sub_def dt_add_def ebind_def)

lemma assign_real_base_other:
  assumes "assign_real_base SEOUL r st = Inr st'"
  shows "st' = st\<lparr>real_base := real_base st'\<rparr>"
  using assms by (auto simp: assign_real_base_def ebind_def split: if_splits sum.splits)

lemma assign_virt_base_other:
  assumes "assign_virt_base SEOUL r st = Inr st'"
  shows "st' = st\<lparr>virt_base := virt_base st'\<rparr>"
  using assms by (auto simp: assign_virt_base_def ebind_def split: if_splits sum.splits)

lemma assign_virt_adjust_other:
  assumes "assign_virt_adjust r st = Inr st'"
  shows "st' = st\<lparr>virt_adjust := virt_adjust st'\<rparr>"
  using assms by (auto simp: assign_virt_adjust_def ebind_def split: if_splits sum.splits)

lemma assign_speed_result:
  assumes "assign_speed r st = Inr st'"
  shows "st' = st\<lparr>speed := speed st'\<rparr> \<and> get_default (row_speed r) DEFAULT_SPEED = Some (speed st')"
  using assms by (auto simp: assign_speed_def ebind_def py_int_def split: option.splits)

lemma apply_remote_state_speed:
  "speed (apply_remote_state SEOUL r st) = speed st
   \<or> get_default (row_speed r) DEFAULT_SPEED = Some (speed (apply_remote_state SEOUL r st))"
proof (cases "assign_real_base SEOUL r st")
  case (Inl e)
  then show ?thesis by (simp add: apply_remote_state_def)
next
  case s1: (Inr s1)
  from assign_real_base_other [OF s1] have e1: "speed s1 = speed st"
    by (metis session_state.select_convs(6) session_state.surjective session_state.update_convs(1))
  show ?thesis
  proof (cases "assign_virt_base SEOUL r s1")
    case (Inl e)
    then show ?thesis using s1 e1 by (simp add: apply_remote_state_def)
  next
    case s2: (Inr s2)
    from assign_virt_base_other [OF s2] have e2: "speed s2 = speed s1"
      by (metis session_state.select_convs(6) session_state.surjective session_state.update_convs(2))
    show ?thesis
    proof (cases "assign_virt_adjust r s2")
      case (Inl e)
      then show ?thesis using s1 s2 e1 e2 by (simp add: apply_remote_state_def)
    next
      case s3: (Inr s3)
      from assign_virt_adjust_other [OF s3] have e3: "speed s3 = speed s2"
        by (metis session_state.select_convs(6) session_state.surjective session_state.update_convs(5))
      show ?thesis
      proof (cases "assign_speed r s3")
        case (Inl e)
        then show ?thesis using s1 s2 s3 e1 e2 e3 by (simp add: apply_remote_state_def)
      next
        case s4: (Inr s4)
        from assign_speed_result [OF s4]
        have "get_default (row_speed r) DEFAULT_SPEED = Some (speed s4)" by simp
        then show ?thesis
          using s1 s2 s3 s4 by (simp add: apply_remote_state_def assign_last_loaded_at_def)
      qed
    qed
  qed
qed

lemma save_remote_state_fields:
  assumes "save_remote_state SEOUL now_iso supabase st = Inr (st', sb')"
  shows "real_base st' = real_base st \<and> virt_base st' = virt_base st
         \<and> virt_adjust st' = virt_adjust st \<and> speed st' = speed st"
  using assms
  by (auto simp: save_remote_state_def try_except_def ebind_def Let_def
      split: option.splits sum.splits)

lemma default_state_speed: "default_state now0 = Inr st \<Longrightarrow> speed st = DEFAULT_SPEED"
  by (auto simp: default_state_def ebind_def Let_def split: sum.splits)

lemma apply_remote_state_invariant:
  assumes "speed_invariant st" and "row_speed_valid r"
  shows "speed_invariant (apply_remote_state SEOUL r st)"
  using apply_remote_state_speed [of SEOUL r st] assms
  by (auto simp: speed_invariant_def row_speed_valid_def)

section \<open>The time mapper\<close>

text \<open>What a returned value of \<open>compute_virtual\<close> is made of.\<close>

lemma compute_virtual_InrD:
  assumes "compute_virtual st now = Inr v"
  obtains fsp where "float_of_int (speed st) = Inr fsp"
    and "valid_timedelta (microseconds_of_float_seconds (fmul (total_seconds (now - real_base st)) fsp))"
    and "v = replace_microsecond0 (virt_base st
           + microseconds_of_float_seconds (fmul (total_seconds (now - real_base st)) fsp)
           + virt_adjust st)"
  using assms
  by (auto simp: compute_virtual_def Let_def ebind_def dt_diff_def dt_add_def
      timedelta_of_float_seconds_def mk_timedelta_def split: sum.splits if_splits)

text \<open>
  The mapper agrees with the formula of the specification while the scaled elapsed
  time is at most \<open>2 ^ 50\<close> microseconds and the sums are datetimes.
\<close>

lemma valid_timedelta_small:
  assumes "\<bar>d\<bar> \<le> 2 ^ 50"
  shows "valid_timedelta d"
proof -
  from assms have "- (2 ^ 50) \<le> d" and "d \<le> 2 ^ 50" by linarith+
  then have "(- (2 ^ 50)) div 86400000000 \<le> d div 86400000000"
    and "d div 86400000000 \<le> 2 ^ 50 div 86400000000"
    by (simp_all add: zdiv_mono1)
  then show ?thesis
    by (simp add: valid_timedelta_def US_PER_DAY_def MAX_DELTA_DAYS_def)
qed

lemma compute_virtual_exact:
  assumes "\<bar>speed st\<bar> < 2 ^ 53" and "\<bar>(now - real_base st) * speed st\<bar> \<le> 2 ^ 50"
    and "valid_datetime (virt_base st + (now - real_base st) * speed st)"
    and "valid_datetime (virtual_now_spec st now)"
  shows "compute_virtual st now = Inr (truncate_to_seconds (virtual_now_spec st now))"
proof -
  have f: "float_of_int (speed st) = Inr (of_int (speed st))"
    using assms(1) by (rule float_of_int_small)
  have s: "microseconds_of_float_seconds (fmul (total_seconds (now - real_base st)) (of_int (speed st)))
      = (now - real_base st) * speed st"
    using assms(2) by (rule scaled_exact)
  have v: "valid_timedelta ((now - real_base st) * speed st)"
    using assms(2) by (rule valid_timedelta_small)
  show ?thesis
    using assms(3,4) v
    by (simp add: compute_virtual_def Let_def dt_diff_def f s ebind_def timedelta_of_float_seconds_def
        mk_timedelta_def dt_add_def virtual_now_spec_def truncate_to_seconds_def
        replace_microsecond0_def)
qed

text \<open>The three roundings at the inputs used below, each from its binade.\<close>

lemma total_seconds_1994: "total_seconds 978235200111111 = 8206031625533667 / 8388608"
  unfolding total_seconds_def US_PER_SECOND_def
  by (rule trans [OF fl_eqI [where e = 29 and n = 8206031625533667]]) (simp_all add: pow2_def)

lemma fmul_1994: "fmul (8206031625533667 / 8388608) 9 = 8804116801"
  unfolding fmul_def
  by (rule trans [OF fl_eqI [where e = 33 and n = 4615892789362688]]) (simp_all add: pow2_def)

lemma total_seconds_1960: "total_seconds 2051236800111111 = 8603510715653233 / 4194304"
  unfolding total_seconds_def US_PER_SECOND_def
  by (rule trans [OF fl_eqI [where e = 30 and n = 8603510715653233]]) (simp_all add: pow2_def)

lemma fmul_1960: "fmul (8603510715653233 / 4194304) 9 = 18461131201"
  unfolding fmul_def
  by (rule trans [OF fl_eqI [where e = 34 and n = 4839474777554944]]) (simp_all add: pow2_def)

lemma total_seconds_2000: "total_seconds 788932800000006 = 3309023998771225 / 4194304"
  unfolding total_seconds_def US_PER_SECOND_def
  by (rule trans [OF fl_eqI [where e = 29 and n = 6618047997542450]]) (simp_all add: pow2_def)

lemma fmul_2000: "fmul (3309023998771225 / 4194304) 9 = 930662999654407 / 131072"
  unfolding fmul_def
  by (rule trans [OF fl_eqI [where e = 32 and n = 7445303997235256]]) (simp_all add: pow2_def)

lemma fmul_fraction_2000: "fmul 1000000 (7 / 131072) = 109375 / 2048"
  unfolding fmul_def
  by (rule trans [OF fl_eqI [where e = 5 and n = 7516192768000000]]) (simp_all add: pow2_def)

lemma microseconds_2000:
  "microseconds_of_float_seconds (930662999654407 / 131072) = 7100395200000053"
proof -
  have "\<lfloor>930662999654407 / 131072 :: rat\<rfloor> = 7100395200" by (rule floor_unique) simp_all
  then have t: "trunc (930662999654407 / 131072) = 7100395200" by (simp add: trunc_def)
  have f: "frac_part (930662999654407 / 131072) = 7 / 131072" by (simp add: frac_part_def t)
  have r: "rne (109375 / 2048) = 53" by (rule rne_unique) simp_all
  show ?thesis
    by (simp add: microseconds_of_float_seconds_def t f US_PER_SECOND_def fmul_fraction_2000 r)
qed

lemma total_seconds_half: "total_seconds 500000 = 1 / 2"
  unfolding total_seconds_def US_PER_SECOND_def
  by (rule trans [OF fl_eqI [where e = "- 1" and n = 4503599627370496]]) (simp_all add: pow2_def)

text \<open>
  C1. The claim: for every configuration and every real timestamp, \<open>compute_virtual\<close>
  equals \<open>virt_base + (real_now - real_base) * speed + virt_adjust\<close> truncated to whole
  seconds. The code scales the elapsed time in floating point seconds, and the
  rounding shows once the scaled time is long. With the real base at 1994-01-01 20:00,
  the virtual base at 09:00 of that day, speed 9 and no adjustment, at
  2025-01-01 00:00:00.111111 the formula gives 2272-12-28 21:00:00.999999, which
  truncates to 21:00:00; the code returns 21:00:01. (Lemma \<open>compute_virtual_exact\<close>
  gives the range in which the two agree.)
\<close>

theorem compute_virtual_misses_formula:
  "compute_virtual
     (configuration (datetime_of 1994 1 1 20 0 0 0) (datetime_of 1994 1 1 9 0 0 0) 9 0)
     (datetime_of 2025 1 1 0 0 0 111111) = Inr (datetime_of 2272 12 28 21 0 1 0)
   \<and> truncate_to_seconds (virtual_now_spec
     (configuration (datetime_of 1994 1 1 20 0 0 0) (datetime_of 1994 1 1 9 0 0 0) 9 0)
     (datetime_of 2025 1 1 0 0 0 111111)) = datetime_of 2272 12 28 21 0 0 0"
proof
  have "microseconds_of_float_seconds 8804116801 = 8804116801000000"
    using microseconds_of_whole_seconds [of 8804116801] by (simp add: US_PER_SECOND_def)
  then show "compute_virtual
     (configuration (datetime_of 1994 1 1 20 0 0 0) (datetime_of 1994 1 1 9 0 0 0) 9 0)
     (datetime_of 2025 1 1 0 0 0 111111) = Inr (datetime_of 2272 12 28 21 0 1 0)"
    using float_of_int_small [of 9]
    by (simp add: compute_virtual_def configuration_def dt_diff_def calendar_defs
        total_seconds_1994 fmul_1994 ebind_def timedelta_of_float_seconds_def range_defs
        replace_microsecond0_def)
  show "truncate_to_seconds (virtual_now_spec
     (configuration (datetime_of 1994 1 1 20 0 0 0) (datetime_of 1994 1 1 9 0 0 0) 9 0)
     (datetime_of 2025 1 1 0 0 0 111111)) = datetime_of 2272 12 28 21 0 0 0"
    by (simp add: truncate_to_seconds_def virtual_now_spec_def configuration_def calendar_defs)
qed

text \<open>
  C3. For a fixed configuration with a positive speed and two real timestamps
  \<open>now1 \<le> now2\<close>, the virtual time \<open>compute_virtual\<close> returns for \<open>now1\<close> is not later
  than the one it returns for \<open>now2\<close>: every rounding on the way is monotone.
\<close>

theorem compute_virtual_monotonic:
  assumes "0 < speed st" and "now1 \<le> now2"
    and "compute_virtual st now1 = Inr v1" and "compute_virtual st now2 = Inr v2"
  shows "v1 \<le> v2"
proof -
  from assms(3) obtain s1 where s1: "float_of_int (speed st) = Inr s1"
    and v1: "v1 = replace_microsecond0 (virt_base st
           + microseconds_of_float_seconds (fmul (total_seconds (now1 - real_base st)) s1)
           + virt_adjust st)"
    by (rule compute_virtual_InrD)
  from assms(4) obtain s2 where s2: "float_of_int (speed st) = Inr s2"
    and v2: "v2 = replace_microsecond0 (virt_base st
           + microseconds_of_float_seconds (fmul (total_seconds (now2 - real_base st)) s2)
           + virt_adjust st)"
    by (rule compute_virtual_InrD)
  from s1 s2 have eq: "s2 = s1" by simp
  from assms(1) s1 have s: "0 \<le> s1" by (intro float_of_int_nonneg [of "speed st"]) simp_all
  have "total_seconds (now1 - real_base st) \<le> total_seconds (now2 - real_base st)"
    using assms(2) by (intro total_seconds_mono) simp
  then have "fmul (total_seconds (now1 - real_base st)) s1 \<le> fmul (total_seconds (now2 - real_base st)) s1"
    by (rule fmul_mono_left [OF s])
  then have "microseconds_of_float_seconds (fmul (total_seconds (now1 - real_base st)) s1)
      \<le> microseconds_of_float_seconds (fmul (total_seconds (now2 - real_base st)) s1)"
    by (rule microseconds_of_float_seconds_mono)
  then show ?thesis unfolding v1 v2 eq by (intro replace_microsecond0_mono) simp
qed

theorem compute_virtual_monotonic_witness:
  "0 < speed (configuration (datetime_of 2025 1 1 20 0 0 0) (datetime_of 2025 1 1 9 0 0 0) 3 0)
   \<and> datetime_of 2025 1 1 20 10 0 0 \<le> datetime_of 2025 1 1 20 20 0 0
   \<and> compute_virtual (configuration (datetime_of 2025 1 1 20 0 0 0) (datetime_of 2025 1 1 9 0 0 0) 3 0)
        (datetime_of 2025 1 1 20 10 0 0) = Inr (datetime_of 2025 1 1 9 30 0 0)
   \<and> compute_virtual (configuration (datetime_of 2025 1 1 20 0 0 0) (datetime_of 2025 1 1 9 0 0 0) 3 0)
        (datetime_of 2025 1 1 20 20 0 0) = Inr (datetime_of 2025 1 1 10 0 0 0)
   \<and> datetime_of 2025 1 1 9 30 0 0 \<le> datetime_of 2025 1 1 10 0 0 0"
proof -
  let ?st = "configuration (datetime_of 2025 1 1 20 0 0 0) (datetime_of 2025 1 1 9 0 0 0) 3 0"
  have a: "0 < speed ?st" by (simp add: configuration_def)
  have b: "datetime_of 2025 1 1 20 10 0 0 \<le> datetime_of 2025 1 1 20 20 0 0"
    by (simp add: calendar_defs)
  have c: "compute_virtual ?st (datetime_of 2025 1 1 20 10 0 0) = Inr (datetime_of 2025 1 1 9 30 0 0)"
    using compute_virtual_whole_seconds [of 600 3 "datetime_of 2025 1 1 9 0 0 0" 0 "datetime_of 2025 1 1 20 0 0 0"]
    by (simp add: calendar_defs range_defs replace_microsecond0_def)
  have d: "compute_virtual ?st (datetime_of 2025 1 1 20 20 0 0) = Inr (datetime_of 2025 1 1 10 0 0 0)"
    using compute_virtual_whole_seconds [of 1200 3 "datetime_of 2025 1 1 9 0 0 0" 0 "datetime_of 2025 1 1 20 0 0 0"]
    by (simp add: calendar_defs range_defs replace_microsecond0_def)
  from compute_virtual_monotonic [OF a b c d] a b c d show ?thesis by simp
qed

text \<open>
  C7. The claim: after the adjustment is reset to the zero duration, \<open>compute_virtual\<close>
  equals \<open>virt_base + (now - real_base) * speed\<close> truncated to whole seconds, for every
  real timestamp. The reset does set the adjustment to zero, and the floating point
  scaling of C1 remains: with the real base at 1960-01-01 20:00, the virtual base at
  09:00 of that day and speed 9, at 2025-01-01 00:00:00.111111 the unadjusted formula
  truncates to 2545-01-03 21:00:00 and the code returns 21:00:01.
\<close>

theorem reset_adjust_misses_formula:
  "virt_adjust (reset_adjust
     (configuration (datetime_of 1960 1 1 20 0 0 0) (datetime_of 1960 1 1 9 0 0 0) 9 (hours 1))) = 0
   \<and> compute_virtual
     (reset_adjust (configuration (datetime_of 1960 1 1 20 0 0 0) (datetime_of 1960 1 1 9 0 0 0) 9 (hours 1)))
     (datetime_of 2025 1 1 0 0 0 111111) = Inr (datetime_of 2545 1 3 21 0 1 0)
   \<and> truncate_to_seconds (datetime_of 1960 1 1 9 0 0 0
        + (datetime_of 2025 1 1 0 0 0 111111 - datetime_of 1960 1 1 20 0 0 0) * 9)
      = datetime_of 2545 1 3 21 0 0 0"
proof (intro conjI)
  show "virt_adjust (reset_adjust
     (configuration (datetime_of 1960 1 1 20 0 0 0) (datetime_of 1960 1 1 9 0 0 0) 9 (hours 1))) = 0"
    by (simp add: reset_adjust_def)
  have "microseconds_of_float_seconds 18461131201 = 18461131201000000"
    using microseconds_of_whole_seconds [of 18461131201] by (simp add: US_PER_SECOND_def)
  then show "compute_virtual
     (reset_adjust (configuration (datetime_of 1960 1 1 20 0 0 0) (datetime_of 1960 1 1 9 0 0 0) 9 (hours 1)))
     (datetime_of 2025 1 1 0 0 0 111111) = Inr (datetime_of 2545 1 3 21 0 1 0)"
    using float_of_int_small [of 9]
    by (simp add: compute_virtual_def reset_adjust_def configuration_def dt_diff_def calendar_defs
        total_seconds_1960 fmul_1960 ebind_def timedelta_of_float_seconds_def range_defs
        replace_microsecond0_def)
  show "truncate_to_seconds (datetime_of 1960 1 1 9 0 0 0
        + (datetime_of 2025 1 1 0 0 0 111111 - datetime_of 1960 1 1 20 0 0 0) * 9)
      = datetime_of 2545 1 3 21 0 0 0"
    by (simp add: truncate_to_seconds_def calendar_defs)
qed

text \<open>
  C8. With the real base at 20:00 and the virtual base at 09:00 of the same day
  \<open>d\<close>, speed 3 and no adjustment, the mapper at 20:10 of that day returns 09:30 of
  that day.
\<close>

theorem example_evening:
  assumes "0 \<le> d" and "d < MAX_ORDINAL"
  shows "compute_virtual (configuration (days d + hours 20) (days d + hours 9) 3 0)
           (days d + hours 20 + minutes 10) = Inr (days d + hours 9 + minutes 30)"
proof -
  have ts: "total_seconds 600000000 = 600"
    using fl_of_int [of 600] by (simp add: total_seconds_def US_PER_SECOND_def)
  have m: "fmul 600 3 = 1800"
    using fl_of_int [of 1800] by (simp add: fmul_def)
  have us: "microseconds_of_float_seconds 1800 = 1800000000"
    using microseconds_of_whole_seconds [of 1800] by (simp add: US_PER_SECOND_def)
  show ?thesis
    using assms float_of_int_small [of 3]
    by (simp add: compute_virtual_def configuration_def dt_diff_def days_def hours_def minutes_def
        ts m us ebind_def timedelta_of_float_seconds_def range_defs replace_microsecond0_def)
qed

theorem example_evening_witness:
  "(0::int) \<le> 739251 \<and> 739251 < MAX_ORDINAL \<and>
   compute_virtual (configuration (datetime_of 2025 1 1 20 0 0 0) (datetime_of 2025 1 1 9 0 0 0) 3 0)
     (datetime_of 2025 1 1 20 10 0 0) = Inr (datetime_of 2025 1 1 9 30 0 0)"
proof -
  have a: "(0::int) \<le> 739251" by simp
  have b: "739251 < MAX_ORDINAL" by (simp add: MAX_ORDINAL_def)
  show ?thesis using a b example_evening [OF a b]
    by (simp add: calendar_defs)
qed

text \<open>
  C10. The claim: the button that sets the clock to a target sets
  \<open>virt_adjust = target - (virt_base + (nowx - real_base) * speed)\<close>, so that
  \<open>compute_virtual\<close> at \<open>nowx\<close> is the target truncated to whole seconds. The button
  does compute that adjustment, in exact arithmetic; \<open>compute_virtual\<close> scales the same
  elapsed time in floating point. With the real base at 2000-01-01 20:00, the virtual
  base at 09:00 of that day and speed 9, setting the clock to 2025-01-01 09:00:00 at
  2025-01-01 00:00:00.000006 leaves \<open>compute_virtual\<close> at 08:59:59.
\<close>

theorem set_to_target_misses_target:
  "set_to_target (datetime_of 2025 1 1 9 0 0 0) (datetime_of 2025 1 1 0 0 0 6)
     (configuration (datetime_of 2000 1 1 20 0 0 0) (datetime_of 2000 1 1 9 0 0 0) 9 0)
   = Inr (configuration (datetime_of 2000 1 1 20 0 0 0) (datetime_of 2000 1 1 9 0 0 0) 9
       (datetime_of 2025 1 1 9 0 0 0
         - (datetime_of 2000 1 1 9 0 0 0 + (datetime_of 2025 1 1 0 0 0 6 - datetime_of 2000 1 1 20 0 0 0) * 9)))
   \<and> compute_virtual
     (configuration (datetime_of 2000 1 1 20 0 0 0) (datetime_of 2000 1 1 9 0 0 0) 9
       (datetime_of 2025 1 1 9 0 0 0
         - (datetime_of 2000 1 1 9 0 0 0 + (datetime_of 2025 1 1 0 0 0 6 - datetime_of 2000 1 1 20 0 0 0) * 9)))
     (datetime_of 2025 1 1 0 0 0 6) = Inr (datetime_of 2025 1 1 8 59 59 0)
   \<and> truncate_to_seconds (datetime_of 2025 1 1 9 0 0 0) = datetime_of 2025 1 1 9 0 0 0"
proof (intro conjI)
  show "set_to_target (datetime_of 2025 1 1 9 0 0 0) (datetime_of 2025 1 1 0 0 0 6)
     (configuration (datetime_of 2000 1 1 20 0 0 0) (datetime_of 2000 1 1 9 0 0 0) 9 0)
   = Inr (configuration (datetime_of 2000 1 1 20 0 0 0) (datetime_of 2000 1 1 9 0 0 0) 9
       (datetime_of 2025 1 1 9 0 0 0
         - (datetime_of 2000 1 1 9 0 0 0 + (datetime_of 2025 1 1 0 0 0 6 - datetime_of 2000 1 1 20 0 0 0) * 9)))"
    by (simp add: set_to_target_def configuration_def td_mul_def dt_diff_def ebind_def
        calendar_defs range_defs)
  show "compute_virtual
     (configuration (datetime_of 2000 1 1 20 0 0 0) (datetime_of 2000 1 1 9 0 0 0) 9
       (datetime_of 2025 1 1 9 0 0 0
         - (datetime_of 2000 1 1 9 0 0 0 + (datetime_of 2025 1 1 0 0 0 6 - datetime_of 2000 1 1 20 0 0 0) * 9)))
     (datetime_of 2025 1 1 0 0 0 6) = Inr (datetime_of 2025 1 1 8 59 59 0)"
    using float_of_int_small [of 9]
    by (simp add: compute_virtual_def configuration_def dt_diff_def calendar_defs
        total_seconds_2000 fmul_2000 microseconds_2000 ebind_def timedelta_of_float_seconds_def
        range_defs replace_microsecond0_def)
  show "truncate_to_seconds (datetime_of 2025 1 1 9 0 0 0) = datetime_of 2025 1 1 9 0 0 0"
    by (simp add: truncate_to_seconds_def calendar_defs)
qed


section \<open>The default bases\<close>

text \<open>
  C9, as amended. For every timestamp \<open>now\<close> at or after 0001-01-01 20:00:00,
  \<open>get_default_real_base\<close> returns a timestamp at 20:00:00 exactly that is not later
  than \<open>now\<close>: of the day of \<open>now\<close> when \<open>now\<close> is at or after 20:00, of the day before
  otherwise; and \<open>get_default_virt_base\<close> of it is 09:00:00 of the same date.
\<close>

theorem default_bases:
  assumes "valid_datetime now" and "hours 20 \<le> now"
  shows "\<exists>b. get_default_real_base now = Inr b \<and> valid_datetime b
           \<and> time_of_day b = hours 20 \<and> b \<le> now
           \<and> (if hours 20 \<le> time_of_day now then date_of b = date_of now
               else date_of b = date_of now - 1)
           \<and> date_of (get_default_virt_base b) = date_of b
           \<and> time_of_day (get_default_virt_base b) = hours 9"
proof -
  define k where "k = now div 86400000000"
  define r where "r = now mod 86400000000"
  have now: "now = k * 86400000000 + r" and r: "0 \<le> r" "r < 86400000000"
    by (simp_all add: k_def r_def)
  from assms(1) have "0 \<le> now" and "now < 3652059 * 86400000000"
    by (simp_all add: valid_datetime_def MAX_ORDINAL_def US_PER_DAY_def)
  with now r have k: "0 \<le> k" "k < 3652059" by linarith+
  have base: "replace_hms now 20 0 0 = k * 86400000000 + 72000000000"
    by (simp add: replace_hms_def US_PER_DAY_def US_PER_SECOND_def k_def)
  have tod: "\<And>j. (j * 86400000000 + 72000000000) mod 86400000000 = (72000000000 :: int)"
    by simp
  have dte: "\<And>j. (j * 86400000000 + 72000000000) div 86400000000 = (j :: int)"
    by simp
  have tod_now: "time_of_day now = r" by (simp add: time_of_day_def US_PER_DAY_def r_def)
  have date_now: "date_of now = k" by (simp add: date_of_def US_PER_DAY_def k_def)
  have vb: "\<And>b. date_of (get_default_virt_base b) = date_of b
      \<and> time_of_day (get_default_virt_base b) = hours 9"
  proof -
    fix b :: int
    have "get_default_virt_base b = (b div 86400000000) * 86400000000 + 32400000000"
      by (simp add: get_default_virt_base_def VIRT_BASE_HMS_def replace_hms_def US_PER_DAY_def US_PER_SECOND_def)
    then show "date_of (get_default_virt_base b) = date_of b
      \<and> time_of_day (get_default_virt_base b) = hours 9"
      by (simp add: date_of_def time_of_day_def US_PER_DAY_def US_PER_SECOND_def hours_def)
  qed
  show ?thesis
  proof (cases "72000000000 \<le> r")
    case True
    then have "\<not> now < replace_hms now 20 0 0" unfolding base using now by simp
    then have g: "get_default_real_base now = Inr (k * 86400000000 + 72000000000)"
      by (simp add: get_default_real_base_def REAL_BASE_HMS_def base)
    have "valid_datetime (k * 86400000000 + 72000000000)"
      using k by (simp add: valid_datetime_def MAX_ORDINAL_def US_PER_DAY_def)
    moreover have "k * 86400000000 + 72000000000 \<le> now" using True now by simp
    ultimately show ?thesis
      unfolding g using True vb [of "k * 86400000000 + 72000000000"]
      by (simp add: time_of_day_def date_of_def US_PER_DAY_def US_PER_SECOND_def hours_def tod dte
          k_def [symmetric] r_def [symmetric])
  next
    case False
    then have lt: "now < replace_hms now 20 0 0" unfolding base using now by simp
    from False assms(2) now r have k1: "1 \<le> k"
      by (simp add: hours_def US_PER_SECOND_def)
    define j where "j = k - 1"
    have j: "0 \<le> j" "j < 3652059" and kj: "k = j + 1" using k k1 by (simp_all add: j_def)
    have eq: "k * 86400000000 + 72000000000 - 86400000000 = j * 86400000000 + 72000000000"
      by (simp add: kj algebra_simps)
    have val: "valid_datetime (j * 86400000000 + 72000000000)"
      using j by (simp add: valid_datetime_def MAX_ORDINAL_def US_PER_DAY_def)
    have g: "get_default_real_base now = Inr (j * 86400000000 + 72000000000)"
      using lt val
      by (simp add: get_default_real_base_def REAL_BASE_HMS_def base dt_sub_def dt_add_def days_def
          US_PER_DAY_def eq)
    have le: "j * 86400000000 + 72000000000 \<le> now" using now r by (simp add: kj algebra_simps)
    have "time_of_day (j * 86400000000 + 72000000000) = hours 20"
      and "date_of (j * 86400000000 + 72000000000) = date_of now - 1"
      by (simp_all add: time_of_day_def date_of_def US_PER_DAY_def US_PER_SECOND_def hours_def
          tod dte k_def [symmetric] kj)
    moreover have "\<not> hours 20 \<le> time_of_day now"
      using False by (simp add: tod_now hours_def US_PER_SECOND_def)
    ultimately show ?thesis
      unfolding g using val le vb [of "j * 86400000000 + 72000000000"]
      by simp
  qed
qed

theorem default_bases_witness:
  "valid_datetime (datetime_of 2025 11 4 12 0 0 0) \<and> hours 20 \<le> datetime_of 2025 11 4 12 0 0 0
   \<and> get_default_real_base (datetime_of 2025 11 4 12 0 0 0) = Inr (datetime_of 2025 11 3 20 0 0 0)
   \<and> get_default_virt_base (datetime_of 2025 11 3 20 0 0 0) = datetime_of 2025 11 3 9 0 0 0"
proof -
  have a: "valid_datetime (datetime_of 2025 11 4 12 0 0 0)"
    by (simp add: valid_datetime_def MAX_ORDINAL_def calendar_defs)
  have b: "hours 20 \<le> datetime_of 2025 11 4 12 0 0 0"
    by (simp add: calendar_defs)
  from default_bases [OF a b] a b show ?thesis
    by (simp add: get_default_real_base_def get_default_virt_base_def REAL_BASE_HMS_def
        VIRT_BASE_HMS_def replace_hms_def dt_sub_def dt_add_def valid_datetime_def MAX_ORDINAL_def
        calendar_defs)
qed

text \<open>
  On 0001-01-01 before 20:00 the day before is outside of the range of \<^verbatim>\<open>datetime\<close>,
  and the subtraction raises.
\<close>

theorem default_real_base_first_day:
  "get_default_real_base (datetime_of 1 1 1 5 0 0 0) = Inl OverflowError"
  by (simp add: get_default_real_base_def REAL_BASE_HMS_def replace_hms_def dt_sub_def dt_add_def
      valid_datetime_def MAX_ORDINAL_def calendar_defs)

section \<open>The store\<close>

lemma load_remote_state_returns: "\<exists>r. load_remote_state supabase = Inr r"
  by (simp add: store_defs split: option.split sum.split)

lemma load_remote_state_query_raises:
  "select_raises db = Some msg \<Longrightarrow> load_remote_state (Some db) = Inr None"
  by (simp add: store_defs)

lemma save_remote_state_returns:
  "\<exists>st' sb'. save_remote_state SEOUL now_iso supabase st = Inr (st', sb')"
  by (simp add: save_remote_state_def execute_upsert_def try_except_def ebind_def Let_def
      split: option.split sum.split)

lemma save_remote_state_write_raises:
  "upsert_raises db = Some msg \<Longrightarrow>
     save_remote_state SEOUL now_iso (Some db) st = Inr (st\<lparr>warnings := warnings st @ [msg]\<rparr>, Some db)"
  by (simp add: save_remote_state_def execute_upsert_def try_except_def ebind_def Let_def
      str_of_error_def)

text \<open>
  C6. Every store operation degrades to local operation on an error:
  \<open>load_remote_state\<close> returns \<^verbatim>\<open>None\<close> when the client is missing or the query raises,
  and never raises; \<open>save_remote_state\<close> never raises, and when the write raises it
  leaves the configuration fields and \<open>last_saved_at\<close> as they were.
\<close>

theorem store_errors_degrade:
  "load_remote_state None = Inr None
   \<and> (select_raises db = Some msg \<longrightarrow> load_remote_state (Some db) = Inr None)
   \<and> (\<exists>r. load_remote_state supabase = Inr r)
   \<and> (\<exists>st' sb'. save_remote_state SEOUL now_iso supabase st = Inr (st', sb'))
   \<and> (upsert_raises db = Some msg \<longrightarrow>
        (\<exists>st'. save_remote_state SEOUL now_iso (Some db) st = Inr (st', Some db)
           \<and> real_base st' = real_base st \<and> virt_base st' = virt_base st
           \<and> virt_adjust st' = virt_adjust st \<and> speed st' = speed st
           \<and> last_saved_at st' = last_saved_at st))"
  using load_remote_state_returns [of supabase] load_remote_state_query_raises [of db msg]
    save_remote_state_returns [of SEOUL now_iso supabase st]
    save_remote_state_write_raises [of db msg SEOUL now_iso st]
  by (simp add: load_remote_state_def)

theorem store_errors_degrade_witness:
  "select_raises \<lparr>data = None, select_raises = Some ''timeout'', upsert_raises = Some ''timeout''\<rparr> = Some ''timeout''
   \<and> load_remote_state (Some \<lparr>data = None, select_raises = Some ''timeout'', upsert_raises = Some ''timeout''\<rparr>) = Inr None
   \<and> upsert_raises \<lparr>data = None, select_raises = Some ''timeout'', upsert_raises = Some ''timeout''\<rparr> = Some ''timeout''
   \<and> save_remote_state KST ''t1'' (Some \<lparr>data = None, select_raises = Some ''timeout'', upsert_raises = Some ''timeout''\<rparr>)
        (configuration 0 0 3 0)
      = Inr ((configuration 0 0 3 0)\<lparr>warnings := [''timeout'']\<rparr>,
             Some \<lparr>data = None, select_raises = Some ''timeout'', upsert_raises = Some ''timeout''\<rparr>)"
  using store_errors_degrade [of "\<lparr>data = None, select_raises = Some ''timeout'', upsert_raises = Some ''timeout''\<rparr>"
      "''timeout''" None KST "''t1''" "configuration 0 0 3 0"]
  by (simp add: store_defs configuration_def)

section \<open>The invariant of the speed\<close>

lemma press_speed_invariant:
  assumes "i < length SPEEDS" and "press_speed SEOUL now_iso supabase i st = Inr (st1, sb1)"
  shows "speed_invariant st1"
proof -
  from assms(2) have "speed st1 = speed (speed_button i st)"
    unfolding press_speed_def
    by (rule save_remote_state_fields [THEN conjunct2, THEN conjunct2, THEN conjunct2])
  also have "\<dots> = SPEEDS ! i" using assms(1) by (simp add: speed_button_def)
  also have "1 \<le> SPEEDS ! i"
    using assms(1) by (auto simp: SPEEDS_def less_Suc_eq numeral_eq_Suc)
  finally show ?thesis by (simp add: speed_invariant_def)
qed

lemma reset_all_invariant:
  assumes "reset_all SEOUL now_iso supabase nowx st = Inr (st2, sb2)"
  shows "speed_invariant st2"
proof -
  from assms obtain rb where
    "save_remote_state SEOUL now_iso supabase
       (st\<lparr>real_base := rb, virt_base := get_default_virt_base rb, real_base_init := rb,
           virt_base_init := get_default_virt_base rb, virt_adjust := 0, speed := DEFAULT_SPEED\<rparr>)
     = Inr (st2, sb2)"
    by (auto simp: reset_all_def ebind_def Let_def split: sum.splits)
  from save_remote_state_fields [OF this] show ?thesis
    by (simp add: speed_invariant_def DEFAULT_SPEED_def)
qed

lemma initialize_invariant:
  assumes rows: "\<forall>r'. load_remote_state supabase = Inr (Some r') \<longrightarrow> row_speed_valid r'"
    and init: "initialize SEOUL now_iso supabase now0 = Inr (st3, sb3)"
  shows "speed_invariant st3"
proof -
  from init obtain s0 l where s0: "default_state now0 = Inr s0"
    and l: "load_remote_state supabase = Inr l"
    and rest: "(case l of
        None \<Rightarrow> (if supabase \<noteq> None then save_remote_state SEOUL now_iso supabase s0
                  else Inr (s0, supabase))
      | Some r' \<Rightarrow> Inr (apply_remote_state SEOUL r' s0, supabase)) = Inr (st3, sb3)"
    by (auto simp: initialize_def ebind_def split: sum.splits)
  have inv0: "speed_invariant s0"
    using default_state_speed [OF s0] by (simp add: speed_invariant_def DEFAULT_SPEED_def)
  show ?thesis
  proof (cases l)
    case None
    with rest have "st3 = s0 \<or> save_remote_state SEOUL now_iso supabase s0 = Inr (st3, sb3)"
      by (auto split: if_splits)
    then show ?thesis
      using inv0 save_remote_state_fields [of SEOUL now_iso supabase s0 st3 sb3]
      by (auto simp: speed_invariant_def)
  next
    case (Some r')
    with rest have st3: "st3 = apply_remote_state SEOUL r' s0" by simp
    from rows l Some have "row_speed_valid r'" by simp
    with inv0 show ?thesis unfolding st3 by (rule apply_remote_state_invariant)
  qed
qed

text \<open>
  C4, as amended. The invariant \<open>1 \<le> speed\<close> holds for the defaults of a new session,
  after every speed button and after the reset of everything; \<open>apply_remote_state\<close>
  preserves it for every row whose speed is absent, null or at least 1; and so it
  holds after the initialization whenever the row loaded then is such a row.
\<close>

theorem speed_invariant_kept:
  "(default_state now0 = Inr st0 \<longrightarrow> speed_invariant st0)
   \<and> (i < length SPEEDS \<longrightarrow> press_speed SEOUL now_iso supabase i st = Inr (st1, sb1)
        \<longrightarrow> speed_invariant st1)
   \<and> (reset_all SEOUL now_iso supabase nowx st = Inr (st2, sb2) \<longrightarrow> speed_invariant st2)
   \<and> (speed_invariant st \<longrightarrow> row_speed_valid r
        \<longrightarrow> speed_invariant (apply_remote_state SEOUL r st))
   \<and> ((\<forall>r'. load_remote_state supabase = Inr (Some r') \<longrightarrow> row_speed_valid r')
        \<longrightarrow> initialize SEOUL now_iso supabase now0 = Inr (st3, sb3) \<longrightarrow> speed_invariant st3)"
proof (intro conjI impI)
  assume "default_state now0 = Inr st0"
  then show "speed_invariant st0"
    using default_state_speed [of now0 st0] by (simp add: speed_invariant_def DEFAULT_SPEED_def)
next
  assume "i < length SPEEDS" and "press_speed SEOUL now_iso supabase i st = Inr (st1, sb1)"
  then show "speed_invariant st1" by (rule press_speed_invariant)
next
  assume "reset_all SEOUL now_iso supabase nowx st = Inr (st2, sb2)"
  then show "speed_invariant st2" by (rule reset_all_invariant)
next
  assume "speed_invariant st" and "row_speed_valid r"
  then show "speed_invariant (apply_remote_state SEOUL r st)"
    by (rule apply_remote_state_invariant)
next
  assume "\<forall>r'. load_remote_state supabase = Inr (Some r') \<longrightarrow> row_speed_valid r'"
    and "initialize SEOUL now_iso supabase now0 = Inr (st3, sb3)"
  then show "speed_invariant st3" by (rule initialize_invariant)
qed

theorem speed_invariant_kept_witness:
  "default_state (datetime_of 2025 11 4 21 0 0 0)
     = Inr (configuration (datetime_of 2025 11 4 20 0 0 0) (datetime_of 2025 11 4 9 0 0 0) 3 0)
   \<and> speed_invariant (configuration (datetime_of 2025 11 4 20 0 0 0) (datetime_of 2025 11 4 9 0 0 0) 3 0)
   \<and> (5::nat) < length SPEEDS
   \<and> press_speed KST ''t1'' None 5 (configuration 0 0 3 0) = Inr (configuration 0 0 9 0, None)
   \<and> speed_invariant (configuration 0 0 9 0)
   \<and> row_speed_valid (seeded_row ''t0'')
   \<and> speed_invariant (apply_remote_state KST (seeded_row ''t0'') (configuration 0 0 9 0))"
proof -
  let ?c = "configuration (datetime_of 2025 11 4 20 0 0 0) (datetime_of 2025 11 4 9 0 0 0) 3 0"
  have a: "default_state (datetime_of 2025 11 4 21 0 0 0) = Inr ?c"
    by (simp add: default_state_def get_default_real_base_def get_default_virt_base_def
        REAL_BASE_HMS_def VIRT_BASE_HMS_def replace_hms_def ebind_def configuration_def
        DEFAULT_SPEED_def calendar_defs)
  have b: "(5::nat) < length SPEEDS" by (simp add: SPEEDS_def)
  have c: "press_speed KST ''t1'' None 5 (configuration 0 0 3 0) = Inr (configuration 0 0 9 0, None)"
    by (simp add: press_speed_def speed_button_def SPEEDS_def save_remote_state_def configuration_def)
  have d: "row_speed_valid (seeded_row ''t0'')"
    by (simp add: row_speed_valid_def seeded_row_def get_default_def DEFAULT_SPEED_def)
  have e: "speed_invariant (configuration 0 0 9 0)"
    using speed_invariant_kept [where i = 5 and SEOUL = KST and now_iso = "''t1''"
        and supabase = None and st = "configuration 0 0 3 0" and ?st1.0 = "configuration 0 0 9 0"
        and ?sb1.0 = None] b c
    by simp
  have f: "speed_invariant ?c"
    using speed_invariant_kept [where ?now0.0 = "datetime_of 2025 11 4 21 0 0 0" and ?st0.0 = ?c] a
    by simp
  have g: "speed_invariant (apply_remote_state KST (seeded_row ''t0'') (configuration 0 0 9 0))"
    using speed_invariant_kept [where SEOUL = KST and st = "configuration 0 0 9 0"
        and r = "seeded_row ''t0''"] d e
    by simp
  from a b c d e f g show ?thesis by simp
qed

text \<open>
  A row with speed 0 is applied as it is: the invariant holds before and not after.
\<close>

theorem apply_remote_state_speed_zero:
  "speed_invariant (configuration (datetime_of 2025 11 4 20 0 0 0) (datetime_of 2025 11 4 9 0 0 0) 3 0)
   \<and> \<not> speed_invariant (apply_remote_state KST
        \<lparr>row_id = Val 1, real_base_iso = Null, virt_base_iso = Null, virt_adjust_sec = Val 0,
         row_speed = Val 0, updated_at = Val ''t1''\<rparr>
        (configuration (datetime_of 2025 11 4 20 0 0 0) (datetime_of 2025 11 4 9 0 0 0) 3 0))"
  by (simp add: speed_invariant_def configuration_def apply_defs seconds_def range_defs)

section \<open>Loading the remote row\<close>

text \<open>
  C5, as amended. When the row loaded is not empty: if its \<open>updated_at\<close> equals the
  cached \<open>last_loaded_at\<close>, the state is left as it is; if it differs and every
  conversion succeeds, \<open>real_base\<close> and \<open>virt_base\<close> are overwritten when the row has a
  non-empty text for them and kept otherwise, \<open>virt_adjust\<close> and \<open>speed\<close> are overwritten
  with the row's values, or with 0 and the default speed when the row lacks the key,
  and \<open>last_loaded_at\<close> becomes the row's \<open>updated_at\<close>.
\<close>

theorem remote_pull_overwrites:
  assumes "load_remote_state (Some db) = Inr (Some r)" and "row_truthy r"
  shows "(get (updated_at r) = last_loaded_at st \<longrightarrow> remote_pull SEOUL (Some db) st = Inr st)
    \<and> (get (updated_at r) \<noteq> last_loaded_at st
        \<longrightarrow> (\<forall>s. real_base_iso r = Val s \<longrightarrow> s \<noteq> EmptyText \<longrightarrow> from_iso SEOUL s = Inr rb)
        \<longrightarrow> (\<forall>s. virt_base_iso r = Val s \<longrightarrow> s \<noteq> EmptyText \<longrightarrow> from_iso SEOUL s = Inr vb)
        \<longrightarrow> get_default (virt_adjust_sec r) 0 = Some n \<longrightarrow> valid_timedelta (seconds n)
        \<longrightarrow> get_default (row_speed r) DEFAULT_SPEED = Some k
        \<longrightarrow> remote_pull SEOUL (Some db) st =
              Inr (st\<lparr>real_base := (if text_truthy (get (real_base_iso r)) then rb else real_base st),
                      virt_base := (if text_truthy (get (virt_base_iso r)) then vb else virt_base st),
                      virt_adjust := seconds n, speed := k,
                      last_loaded_at := get (updated_at r)\<rparr>))"
proof (intro conjI impI)
  assume "get (updated_at r) = last_loaded_at st"
  then show "remote_pull SEOUL (Some db) st = Inr st"
    using assms by (simp add: remote_pull_def ebind_def)
next
  assume diff: "get (updated_at r) \<noteq> last_loaded_at st"
    and rb: "\<forall>s. real_base_iso r = Val s \<longrightarrow> s \<noteq> EmptyText \<longrightarrow> from_iso SEOUL s = Inr rb"
    and vb: "\<forall>s. virt_base_iso r = Val s \<longrightarrow> s \<noteq> EmptyText \<longrightarrow> from_iso SEOUL s = Inr vb"
    and adj: "get_default (virt_adjust_sec r) 0 = Some n" "valid_timedelta (seconds n)"
    and sp: "get_default (row_speed r) DEFAULT_SPEED = Some k"
  have a1: "assign_real_base SEOUL r st
      = Inr (st\<lparr>real_base := (if text_truthy (get (real_base_iso r)) then rb else real_base st)\<rparr>)"
    using rb
    by (cases "real_base_iso r")
      (auto simp: assign_real_base_def text_truthy_def get_def getitem_def ebind_def
        split: iso_text.splits)
  have a2: "\<And>s'. assign_virt_base SEOUL r s'
      = Inr (s'\<lparr>virt_base := (if text_truthy (get (virt_base_iso r)) then vb else virt_base s')\<rparr>)"
    using vb
    by (cases "virt_base_iso r")
      (auto simp: assign_virt_base_def text_truthy_def get_def getitem_def ebind_def
        split: iso_text.splits)
  have a3: "\<And>s'. assign_virt_adjust r s' = Inr (s'\<lparr>virt_adjust := seconds n\<rparr>)"
    using adj by (simp add: assign_virt_adjust_def py_int_def mk_timedelta_def ebind_def)
  have a4: "\<And>s'. assign_speed r s' = Inr (s'\<lparr>speed := k\<rparr>)"
    using sp by (simp add: assign_speed_def py_int_def ebind_def)
  show "remote_pull SEOUL (Some db) st =
        Inr (st\<lparr>real_base := (if text_truthy (get (real_base_iso r)) then rb else real_base st),
                virt_base := (if text_truthy (get (virt_base_iso r)) then vb else virt_base st),
                virt_adjust := seconds n, speed := k,
                last_loaded_at := get (updated_at r)\<rparr>)"
    using assms diff
    by (simp add: remote_pull_def ebind_def apply_remote_state_def a1 a2 a3 a4
        assign_last_loaded_at_def)
qed

theorem remote_pull_overwrites_witness:
  "load_remote_state (Some \<lparr>data = Some [
       \<lparr>row_id = Val 1, real_base_iso = Val (Iso (datetime_of 2025 11 4 20 0 0 0) (Some (hours 9))),
        virt_base_iso = Val (Iso (datetime_of 2025 11 4 0 0 0 0) (Some 0)),
        virt_adjust_sec = Val 60, row_speed = Val 6, updated_at = Val ''t2''\<rparr>],
       select_raises = None, upsert_raises = None\<rparr>)
   = Inr (Some \<lparr>row_id = Val 1, real_base_iso = Val (Iso (datetime_of 2025 11 4 20 0 0 0) (Some (hours 9))),
        virt_base_iso = Val (Iso (datetime_of 2025 11 4 0 0 0 0) (Some 0)),
        virt_adjust_sec = Val 60, row_speed = Val 6, updated_at = Val ''t2''\<rparr>)
   \<and> remote_pull KST (Some \<lparr>data = Some [
       \<lparr>row_id = Val 1, real_base_iso = Val (Iso (datetime_of 2025 11 4 20 0 0 0) (Some (hours 9))),
        virt_base_iso = Val (Iso (datetime_of 2025 11 4 0 0 0 0) (Some 0)),
        virt_adjust_sec = Val 60, row_speed = Val 6, updated_at = Val ''t2''\<rparr>],
       select_raises = None, upsert_raises = None\<rparr>)
       ((configuration 0 0 3 0)\<lparr>last_loaded_at := Some ''t1''\<rparr>)
     = Inr ((configuration (datetime_of 2025 11 4 20 0 0 0) (datetime_of 2025 11 4 9 0 0 0) 6 (minutes 1))
              \<lparr>real_base_init := 0, virt_base_init := 0, last_loaded_at := Some ''t2''\<rparr>)
   \<and> remote_pull KST (Some \<lparr>data = Some [
       \<lparr>row_id = Val 1, real_base_iso = Val (Iso (datetime_of 2025 11 4 20 0 0 0) (Some (hours 9))),
        virt_base_iso = Val (Iso (datetime_of 2025 11 4 0 0 0 0) (Some 0)),
        virt_adjust_sec = Val 60, row_speed = Val 6, updated_at = Val ''t2''\<rparr>],
       select_raises = None, upsert_raises = None\<rparr>)
       ((configuration 0 0 3 0)\<lparr>last_loaded_at := Some ''t2''\<rparr>)
     = Inr ((configuration 0 0 3 0)\<lparr>last_loaded_at := Some ''t2''\<rparr>)"
proof -
  let ?r = "\<lparr>row_id = Val 1, real_base_iso = Val (Iso (datetime_of 2025 11 4 20 0 0 0) (Some (hours 9))),
        virt_base_iso = Val (Iso (datetime_of 2025 11 4 0 0 0 0) (Some 0)),
        virt_adjust_sec = Val 60, row_speed = Val 6, updated_at = Val ''t2''\<rparr>"
  let ?db = "\<lparr>data = Some [?r], select_raises = None, upsert_raises = None\<rparr>"
  have a: "load_remote_state (Some ?db) = Inr (Some ?r)" by (simp add: store_defs)
  have b: "row_truthy ?r" by (simp add: row_truthy_def)
  have c: "from_iso KST (Iso (datetime_of 2025 11 4 20 0 0 0) (Some (hours 9))) = Inr (datetime_of 2025 11 4 20 0 0 0)"
    by (simp add: from_iso_def astimezone_def KST_def dt_sub_def dt_add_def ebind_def valid_datetime_def
        MAX_ORDINAL_def calendar_defs)
  have d: "from_iso KST (Iso (datetime_of 2025 11 4 0 0 0 0) (Some 0)) = Inr (datetime_of 2025 11 4 9 0 0 0)"
    by (simp add: from_iso_def astimezone_def KST_def dt_sub_def dt_add_def ebind_def valid_datetime_def
        MAX_ORDINAL_def calendar_defs)
  have e: "valid_timedelta (seconds 60)" by (simp add: seconds_def range_defs)
  from remote_pull_overwrites [OF a b, where st = "(configuration 0 0 3 0)\<lparr>last_loaded_at := Some ''t1''\<rparr>"
      and SEOUL = KST and rb = "datetime_of 2025 11 4 20 0 0 0" and vb = "datetime_of 2025 11 4 9 0 0 0"
      and n = 60 and k = 6] c d e
  have f: "remote_pull KST (Some ?db) ((configuration 0 0 3 0)\<lparr>last_loaded_at := Some ''t1''\<rparr>)
     = Inr ((configuration (datetime_of 2025 11 4 20 0 0 0) (datetime_of 2025 11 4 9 0 0 0) 6 (minutes 1))
              \<lparr>real_base_init := 0, virt_base_init := 0, last_loaded_at := Some ''t2''\<rparr>)"
    by (simp add: get_def get_default_def text_truthy_def DEFAULT_SPEED_def configuration_def
        minutes_def seconds_def)
  from remote_pull_overwrites [OF a b, where st = "(configuration 0 0 3 0)\<lparr>last_loaded_at := Some ''t2''\<rparr>"
      and SEOUL = KST]
  have g: "remote_pull KST (Some ?db) ((configuration 0 0 3 0)\<lparr>last_loaded_at := Some ''t2''\<rparr>)
     = Inr ((configuration 0 0 3 0)\<lparr>last_loaded_at := Some ''t2''\<rparr>)"
    by (simp add: get_def configuration_def)
  from a f g show ?thesis by simp
qed

text \<open>
  The row that the table definition inserts has no bases: after the load the local
  ones are still there.
\<close>

theorem remote_pull_keeps_real_base:
  "get (updated_at (seeded_row ''t1''))
     \<noteq> last_loaded_at (configuration (datetime_of 2025 11 4 20 0 0 0) (datetime_of 2025 11 4 9 0 0 0) 3 0)
   \<and> remote_pull KST (Some \<lparr>data = Some [seeded_row ''t1''], select_raises = None, upsert_raises = None\<rparr>)
        (configuration (datetime_of 2025 11 4 20 0 0 0) (datetime_of 2025 11 4 9 0 0 0) 3 0)
      = Inr ((configuration (datetime_of 2025 11 4 20 0 0 0) (datetime_of 2025 11 4 9 0 0 0) 3 0)
               \<lparr>last_loaded_at := Some ''t1''\<rparr>)
   \<and> \<not> overwritten_with KST (seeded_row ''t1'')
        ((configuration (datetime_of 2025 11 4 20 0 0 0) (datetime_of 2025 11 4 9 0 0 0) 3 0)
               \<lparr>last_loaded_at := Some ''t1''\<rparr>)"
  by (simp add: seeded_row_def configuration_def remote_pull_def store_defs row_truthy_def
      apply_defs overwritten_with_def seconds_def range_defs DEFAULT_SPEED_def ROW_ID_def)

section \<open>Saving, then loading\<close>

text \<open>
  C2, as amended. For every configuration whose adjustment is a whole number of
  seconds, and whose bases are local times that the zone maps to UTC and back, saving
  the record to a store that works and applying the row loaded from it gives the same
  \<open>real_base\<close>, \<open>virt_base\<close>, \<open>virt_adjust\<close> and \<open>speed\<close>, in any session.
\<close>

theorem save_then_load_roundtrip:
  assumes "upsert_raises db = None" and "select_raises db = None"
    and "valid_datetime (real_base st)" and "valid_datetime (virt_base st)"
    and "valid_timedelta (virt_adjust st)" and "virt_adjust st mod US_PER_SECOND = 0"
    and "valid_datetime (real_base st - utcoffset SEOUL (real_base st))"
    and "fromutc SEOUL (real_base st - utcoffset SEOUL (real_base st)) = real_base st"
    and "valid_datetime (virt_base st - utcoffset SEOUL (virt_base st))"
    and "fromutc SEOUL (virt_base st - utcoffset SEOUL (virt_base st)) = virt_base st"
  shows "\<exists>st1 db1 r. save_remote_state SEOUL now_iso (Some db) st = Inr (st1, Some db1)
           \<and> load_remote_state (Some db1) = Inr (Some r)
           \<and> real_base (apply_remote_state SEOUL r st0) = real_base st
           \<and> virt_base (apply_remote_state SEOUL r st0) = virt_base st
           \<and> virt_adjust (apply_remote_state SEOUL r st0) = virt_adjust st
           \<and> speed (apply_remote_state SEOUL r st0) = speed st"
proof -
  let ?p = "make_payload SEOUL now_iso st"
  have save: "save_remote_state SEOUL now_iso (Some db) st
      = Inr (st\<lparr>last_saved_at := Some now_iso\<rparr>, Some (db\<lparr>data := Some [?p]\<rparr>))"
    using assms(1) by (simp add: save_remote_state_def execute_upsert_def try_except_def ebind_def
        Let_def get_def make_payload_def)
  have load: "load_remote_state (Some (db\<lparr>data := Some [?p]\<rparr>)) = Inr (Some ?p)"
    using assms(2) by (simp add: load_remote_state_def execute_select_def try_except_def ebind_def)
  have rb: "from_iso SEOUL (to_iso SEOUL (real_base st)) = Inr (real_base st)"
    using assms(3,7,8) by (rule from_iso_to_iso)
  have vb: "from_iso SEOUL (to_iso SEOUL (virt_base st)) = Inr (virt_base st)"
    using assms(4,9,10) by (rule from_iso_to_iso)
  have adj: "seconds (trunc (total_seconds (virt_adjust st))) = virt_adjust st"
    using assms(5,6) by (rule trunc_total_seconds_whole)
  have t1: "text_truthy (Some (to_iso SEOUL (real_base st)))"
    and t2: "text_truthy (Some (to_iso SEOUL (virt_base st)))"
    by (simp_all add: text_truthy_def to_iso_def)
  have app: "apply_remote_state SEOUL ?p st0
      = st0\<lparr>real_base := real_base st, virt_base := virt_base st, virt_adjust := virt_adjust st,
            speed := speed st, last_loaded_at := Some now_iso\<rparr>"
    using assms(5)
    by (simp add: apply_remote_state_def assign_real_base_def assign_virt_base_def
        assign_virt_adjust_def assign_speed_def assign_last_loaded_at_def make_payload_def
        get_def get_default_def getitem_def py_int_def ebind_def t1 t2 rb vb adj mk_timedelta_def)
  from save load app show ?thesis by simp
qed

theorem save_then_load_roundtrip_witness:
  "upsert_raises \<lparr>data = None, select_raises = None, upsert_raises = None\<rparr> = None
   \<and> valid_datetime (datetime_of 2025 11 4 20 0 0 0)
   \<and> valid_timedelta (minutes 5) \<and> minutes 5 mod US_PER_SECOND = 0
   \<and> fromutc KST (datetime_of 2025 11 4 20 0 0 0 - utcoffset KST (datetime_of 2025 11 4 20 0 0 0))
       = datetime_of 2025 11 4 20 0 0 0
   \<and> (\<exists>st1 db1 r.
        save_remote_state KST ''t1'' (Some \<lparr>data = None, select_raises = None, upsert_raises = None\<rparr>)
          (configuration (datetime_of 2025 11 4 20 0 0 0) (datetime_of 2025 11 4 9 0 0 0) 6 (minutes 5))
          = Inr (st1, Some db1)
        \<and> load_remote_state (Some db1) = Inr (Some r)
        \<and> real_base (apply_remote_state KST r (configuration 0 0 3 0)) = datetime_of 2025 11 4 20 0 0 0
        \<and> virt_base (apply_remote_state KST r (configuration 0 0 3 0)) = datetime_of 2025 11 4 9 0 0 0
        \<and> virt_adjust (apply_remote_state KST r (configuration 0 0 3 0)) = minutes 5
        \<and> speed (apply_remote_state KST r (configuration 0 0 3 0)) = 6)"
proof -
  let ?db = "\<lparr>data = None, select_raises = None, upsert_raises = None\<rparr>"
  let ?st = "configuration (datetime_of 2025 11 4 20 0 0 0) (datetime_of 2025 11 4 9 0 0 0) 6 (minutes 5)"
  have 1: "upsert_raises ?db = None" and 2: "select_raises ?db = None" by simp_all
  have 3: "valid_datetime (real_base ?st)" and 4: "valid_datetime (virt_base ?st)"
    by (simp_all add: configuration_def valid_datetime_def MAX_ORDINAL_def calendar_defs)
  have 5: "valid_timedelta (virt_adjust ?st)" and 6: "virt_adjust ?st mod US_PER_SECOND = 0"
    by (simp_all add: configuration_def minutes_def range_defs)
  have 7: "valid_datetime (real_base ?st - utcoffset KST (real_base ?st))"
    and 8: "fromutc KST (real_base ?st - utcoffset KST (real_base ?st)) = real_base ?st"
    and 9: "valid_datetime (virt_base ?st - utcoffset KST (virt_base ?st))"
    and 10: "fromutc KST (virt_base ?st - utcoffset KST (virt_base ?st)) = virt_base ?st"
    by (simp_all add: configuration_def KST_def valid_datetime_def MAX_ORDINAL_def calendar_defs)
  from save_then_load_roundtrip [OF 1 2 3 4 5 6 7 8 9 10, of "''t1''" "configuration 0 0 3 0"]
    1 3 5 6 8
  show ?thesis by (simp add: configuration_def)
qed

text \<open>
  The column holds whole seconds: an adjustment of half a second is saved as 0 and
  loaded as the zero duration.
\<close>

theorem save_then_load_drops_fraction:
  "virt_adjust (configuration (datetime_of 2025 11 4 20 0 0 0) (datetime_of 2025 11 4 9 0 0 0) 3 500000)
     = 500000
   \<and> save_remote_state KST ''t1'' (Some \<lparr>data = None, select_raises = None, upsert_raises = None\<rparr>)
       (configuration (datetime_of 2025 11 4 20 0 0 0) (datetime_of 2025 11 4 9 0 0 0) 3 500000)
     = Inr ((configuration (datetime_of 2025 11 4 20 0 0 0) (datetime_of 2025 11 4 9 0 0 0) 3 500000)
              \<lparr>last_saved_at := Some ''t1''\<rparr>,
            Some \<lparr>data = Some [\<lparr>row_id = Val 1,
                 real_base_iso = Val (Iso (datetime_of 2025 11 4 20 0 0 0) (Some (hours 9))),
                 virt_base_iso = Val (Iso (datetime_of 2025 11 4 9 0 0 0) (Some (hours 9))),
                 virt_adjust_sec = Val 0, row_speed = Val 3, updated_at = Val ''t1''\<rparr>],
               select_raises = None, upsert_raises = None\<rparr>)
   \<and> load_remote_state (Some \<lparr>data = Some [\<lparr>row_id = Val 1,
                 real_base_iso = Val (Iso (datetime_of 2025 11 4 20 0 0 0) (Some (hours 9))),
                 virt_base_iso = Val (Iso (datetime_of 2025 11 4 9 0 0 0) (Some (hours 9))),
                 virt_adjust_sec = Val 0, row_speed = Val 3, updated_at = Val ''t1''\<rparr>],
               select_raises = None, upsert_raises = None\<rparr>)
     = Inr (Some \<lparr>row_id = Val 1,
                 real_base_iso = Val (Iso (datetime_of 2025 11 4 20 0 0 0) (Some (hours 9))),
                 virt_base_iso = Val (Iso (datetime_of 2025 11 4 9 0 0 0) (Some (hours 9))),
                 virt_adjust_sec = Val 0, row_speed = Val 3, updated_at = Val ''t1''\<rparr>)
   \<and> virt_adjust (apply_remote_state KST \<lparr>row_id = Val 1,
                 real_base_iso = Val (Iso (datetime_of 2025 11 4 20 0 0 0) (Some (hours 9))),
                 virt_base_iso = Val (Iso (datetime_of 2025 11 4 9 0 0 0) (Some (hours 9))),
                 virt_adjust_sec = Val 0, row_speed = Val 3, updated_at = Val ''t1''\<rparr>
        (configuration (datetime_of 2025 11 4 20 0 0 0) (datetime_of 2025 11 4 9 0 0 0) 3 500000))
     = 0"
proof (intro conjI)
  have "\<lfloor>1 / 2 :: rat\<rfloor> = 0" by (rule floor_unique) simp_all
  then have t: "trunc (1 / 2) = 0" by (simp add: trunc_def)
  show "virt_adjust (configuration (datetime_of 2025 11 4 20 0 0 0) (datetime_of 2025 11 4 9 0 0 0) 3 500000)
     = 500000" by (simp add: configuration_def)
  show "save_remote_state KST ''t1'' (Some \<lparr>data = None, select_raises = None, upsert_raises = None\<rparr>)
       (configuration (datetime_of 2025 11 4 20 0 0 0) (datetime_of 2025 11 4 9 0 0 0) 3 500000)
     = Inr ((configuration (datetime_of 2025 11 4 20 0 0 0) (datetime_of 2025 11 4 9 0 0 0) 3 500000)
              \<lparr>last_saved_at := Some ''t1''\<rparr>,
            Some \<lparr>data = Some [\<lparr>row_id = Val 1,
                 real_base_iso = Val (Iso (datetime_of 2025 11 4 20 0 0 0) (Some (hours 9))),
                 virt_base_iso = Val (Iso (datetime_of 2025 11 4 9 0 0 0) (Some (hours 9))),
                 virt_adjust_sec = Val 0, row_speed = Val 3, updated_at = Val ''t1''\<rparr>],
               select_raises = None, upsert_raises = None\<rparr>)"
    by (simp add: store_defs configuration_def to_iso_def KST_def ROW_ID_def total_seconds_half t)
  show "load_remote_state (Some \<lparr>data = Some [\<lparr>row_id = Val 1,
                 real_base_iso = Val (Iso (datetime_of 2025 11 4 20 0 0 0) (Some (hours 9))),
                 virt_base_iso = Val (Iso (datetime_of 2025 11 4 9 0 0 0) (Some (hours 9))),
                 virt_adjust_sec = Val 0, row_speed = Val 3, updated_at = Val ''t1''\<rparr>],
               select_raises = None, upsert_raises = None\<rparr>)
     = Inr (Some \<lparr>row_id = Val 1,
                 real_base_iso = Val (Iso (datetime_of 2025 11 4 20 0 0 0) (Some (hours 9))),
                 virt_base_iso = Val (Iso (datetime_of 2025 11 4 9 0 0 0) (Some (hours 9))),
                 virt_adjust_sec = Val 0, row_speed = Val 3, updated_at = Val ''t1''\<rparr>)"
    by (simp add: store_defs)
  show "virt_adjust (apply_remote_state KST \<lparr>row_id = Val 1,
                 real_base_iso = Val (Iso (datetime_of 2025 11 4 20 0 0 0) (Some (hours 9))),
                 virt_base_iso = Val (Iso (datetime_of 2025 11 4 9 0 0 0) (Some (hours 9))),
                 virt_adjust_sec = Val 0, row_speed = Val 3, updated_at = Val ''t1''\<rparr>
        (configuration (datetime_of 2025 11 4 20 0 0 0) (datetime_of 2025 11 4 9 0 0 0) 3 500000))
     = 0"
    by (simp add: apply_defs from_iso_def astimezone_def KST_def dt_sub_def configuration_def
        seconds_def range_defs calendar_defs)
qed

end
